theory Spec2Isabelle
  imports Main "HOL-Library.Multiset"
begin

section \<open>Random number service\<close>

text \<open>
  Modelled from the spec: the generator behind \<^verbatim>\<open>rng.js\<close> is the external library
  pure-rand, whose \<^verbatim>\<open>uniformIntDistribution(min, max, rng)\<close> returns an integer in
  \<open>[min, max]\<close> together with the next generator. The stream of raw outputs is the
  parameter \<open>raw\<close>; the generator state is the position in that stream, advanced by one
  on every call. Every sequence of in-range results is the image of some \<open>raw\<close>.
\<close>

type_synonym raw_stream = "nat \<Rightarrow> nat"

definition randomInt :: "raw_stream \<Rightarrow> nat \<Rightarrow> nat \<Rightarrow> nat \<Rightarrow> nat \<times> nat" where
  "randomInt raw lo hi pos = (lo + raw pos mod (hi - lo + 1), Suc pos)"

section \<open>Constants\<close>

definition TAROT_FULL :: "string list" where
  "TAROT_FULL =
    [''beginning'', ''champion'', ''chancellor'', ''chaos'', ''coin'', ''crown'', ''dawn'',
     ''day'', ''destiny'', ''dusk'', ''end'', ''isolation'', ''justice'', ''knife'', ''lock'',
     ''mischief'', ''monster'', ''mystery'', ''night'', ''order'', ''student'', ''vulture'']"

definition TAROT_REDUCED :: "string list" where
  "TAROT_REDUCED =
    [''day'', ''night'', ''dawn'', ''crown'', ''lock'', ''champion'', ''chaos'', ''order'',
     ''beginning'', ''end'', ''monster'', ''knife'', ''mischief'']"

definition SIZE_FULL :: int where "SIZE_FULL = 22"
definition SIZE_REDUCED :: int where "SIZE_REDUCED = 13"
definition DEFAULT_SIZE :: int where "DEFAULT_SIZE = SIZE_FULL"
definition MAX_DRAW :: int where "MAX_DRAW = 20"

section \<open>Game state\<close>

text \<open>
  The fields of \<^verbatim>\<open>DeckManager\<close> (\<open>deck\<close>, \<open>deckSize\<close>), the \<open>drawnCards\<close> of
  \<^verbatim>\<open>CardGame\<close> and the state of the singleton generator, in one record.
\<close>

record game =
  deck :: "string list"
  deckSize :: int
  drawnCards :: "string list"
  rng :: nat

text \<open>
  The handlers return nothing; an early \<^verbatim>\<open>return\<close> leaves the state as it was. The
  status names the early return taken (\<open>None\<close>: the handler ran to its end).
  \<open>TypeError\<close> is the exception of reading \<^verbatim>\<open>.length\<close> of \<^verbatim>\<open>null\<close>.
\<close>

datatype stop = InvalidCount | AboveMaxDraw | EmptyDeck | HaltCardPresent | TypeError

section \<open>DeckManager\<close>

text \<open>\<^verbatim>\<open>[a[i], a[j]] = [a[j], a[i]]\<close>\<close>

definition swap :: "'a list \<Rightarrow> nat \<Rightarrow> nat \<Rightarrow> 'a list" where
  "swap xs i j = (xs[i := xs ! j])[j := xs ! i]"

text \<open>\<^verbatim>\<open>for (let i = this.deck.length - 1; i > 0; i--)\<close>, the argument is \<open>i\<close>.\<close>

fun shuffleLoop :: "raw_stream \<Rightarrow> nat \<Rightarrow> string list \<Rightarrow> nat \<Rightarrow> string list \<times> nat" where
  "shuffleLoop raw 0 dk pos = (dk, pos)"
| "shuffleLoop raw (Suc i) dk pos =
     (let (j, pos') = randomInt raw 0 (Suc i) pos
      in shuffleLoop raw i (swap dk (Suc i) j) pos')"

definition shuffleDeck :: "raw_stream \<Rightarrow> string list \<Rightarrow> nat \<Rightarrow> string list \<times> nat" where
  "shuffleDeck raw dk pos = shuffleLoop raw (length dk - 1) dk pos"

text \<open>
  The \<open>size\<close> argument of \<^verbatim>\<open>createDeck\<close>: absent (\<^verbatim>\<open>null\<close>), a number, or the tag
  \<^verbatim>\<open>DECK_SIZES.CUSTOM\<close> (a constant that \<^verbatim>\<open>constants.js\<close> does not show; it is
  compared with \<^verbatim>\<open>===\<close> only, so a tag of its own stands for it).
\<close>

datatype size_arg = NoSize | Num int | Custom

definition createDeck ::
  "raw_stream \<Rightarrow> size_arg \<Rightarrow> string list option \<Rightarrow> game \<Rightarrow> game" where
  "createDeck raw sz customCards g =
     (let (cardSet, newSize) =
        (case sz of
           Custom \<Rightarrow>
             (let cs = (case customCards of
                          None \<Rightarrow> []
                        | Some cc \<Rightarrow> if length cc > 0 then cc else [])
              in (cs, int (length cs)))
         | NoSize \<Rightarrow>
             (let targetSize = deckSize g
              in (if targetSize = SIZE_REDUCED then TAROT_REDUCED else TAROT_FULL, targetSize))
         | Num n \<Rightarrow>
             (if n = SIZE_REDUCED then TAROT_REDUCED else TAROT_FULL, n));
          (dk, pos) = shuffleDeck raw cardSet (rng g)
      in g\<lparr>deck := dk, deckSize := newSize, rng := pos\<rparr>)"

text \<open>The loop of \<^verbatim>\<open>drawCards(count)\<close>: as many samples, with replacement.\<close>

fun drawLoop :: "raw_stream \<Rightarrow> string list \<Rightarrow> nat \<Rightarrow> nat \<Rightarrow> string list \<times> nat" where
  "drawLoop raw dk 0 pos = ([], pos)"
| "drawLoop raw dk (Suc n) pos =
     (let (randomIndex, pos') = randomInt raw 0 (length dk - 1) pos;
          (rest, pos'') = drawLoop raw dk n pos'
      in (dk ! randomIndex # rest, pos''))"

text \<open>\<^verbatim>\<open>drawCards\<close> returns \<^verbatim>\<open>null\<close> (\<open>None\<close>) on an empty deck.\<close>

definition drawCards ::
  "raw_stream \<Rightarrow> string list \<Rightarrow> nat \<Rightarrow> nat \<Rightarrow> (string list \<times> nat) option" where
  "drawCards raw dk cnt pos = (if length dk = 0 then None else Some (drawLoop raw dk cnt pos))"

definition isEmpty :: "game \<Rightarrow> bool" where
  "isEmpty g = (length (deck g) = 0)"

section \<open>CardGame: draw resolution\<close>

text \<open>\<^verbatim>\<open>Array.prototype.indexOf\<close>, with \<open>None\<close> for \<open>-1\<close>.\<close>

fun indexOf :: "'a list \<Rightarrow> 'a \<Rightarrow> nat option" where
  "indexOf [] c = None"
| "indexOf (x # xs) c = (if x = c then Some 0 else map_option Suc (indexOf xs c))"

text \<open>
  \<^verbatim>\<open>const i = cards.indexOf("isolation"); if (i !== -1) cards = cards.slice(0, i + 1)\<close>,
  which both handlers repeat.
\<close>

definition sliceAtIsolation :: "string list \<Rightarrow> string list" where
  "sliceAtIsolation cards =
     (case indexOf cards ''isolation'' of None \<Rightarrow> cards | Some i \<Rightarrow> take (i + 1) cards)"

text \<open>
  The loop \<^verbatim>\<open>for (let i = 0; i < mysteryCount; i++)\<close> of \<^verbatim>\<open>handleDrawCards\<close>; the
  first argument counts the iterations left.
\<close>

fun extendLoop ::
  "raw_stream \<Rightarrow> string list \<Rightarrow> nat \<Rightarrow> string list \<Rightarrow> nat \<Rightarrow> string list \<times> nat" where
  "extendLoop raw dk 0 drawn pos = (drawn, pos)"
| "extendLoop raw dk (Suc n) drawn pos =
     (case drawCards raw dk 1 pos of
        None \<Rightarrow> extendLoop raw dk n drawn pos
      | Some (extraCards, pos') \<Rightarrow>
          if length extraCards > 0 then
            (let drawn' = drawn @ extraCards
             in case indexOf drawn' ''isolation'' of
                  Some newIsolationIndex \<Rightarrow> (take (newIsolationIndex + 1) drawn', pos')
                | None \<Rightarrow> extendLoop raw dk n drawn' pos')
          else extendLoop raw dk n drawn pos')"

text \<open>
  \<^verbatim>\<open>handleDrawCards(count)\<close>; \<open>cnt\<close> is its \<^verbatim>\<open>count\<close>, an integer here, so
  \<^verbatim>\<open>Number.isInteger(count)\<close> holds. Rendering and the reset of the selections are
  not part of the state.
\<close>

definition handleDrawCards :: "raw_stream \<Rightarrow> int \<Rightarrow> game \<Rightarrow> stop option \<times> game" where
  "handleDrawCards raw cnt g =
     (if cnt \<le> 0 then (Some InvalidCount, g)
      else if cnt > MAX_DRAW then (Some AboveMaxDraw, g)
      else if isEmpty g then (Some EmptyDeck, g)
      else
        (case drawCards raw (deck g) (nat cnt) (rng g) of
           None \<Rightarrow> (Some TypeError, g)
         | Some (drawn0, pos0) \<Rightarrow>
             (let drawn1 = sliceAtIsolation drawn0;
                  mysteryCount = length (filter (\<lambda>card. card = ''mystery'') drawn1);
                  (drawn2, pos2) =
                    (if mysteryCount > 0 \<and> ''isolation'' \<notin> set drawn1
                     then extendLoop raw (deck g) mysteryCount drawn1 pos0
                     else (drawn1, pos0))
              in (None, g\<lparr>drawnCards := drawn2, rng := pos2\<rparr>))))"

text \<open>\<^verbatim>\<open>handleDeckSizeChange(size, selectedCards)\<close>\<close>

definition handleDeckSizeChange ::
  "raw_stream \<Rightarrow> size_arg \<Rightarrow> string list option \<Rightarrow> game \<Rightarrow> game" where
  "handleDeckSizeChange raw sz selectedCards g =
     (createDeck raw sz selectedCards g)\<lparr>drawnCards := []\<rparr>"

text \<open>\<^verbatim>\<open>this.drawnCards.splice(index, 1)\<close>\<close>

definition splice1 :: "'a list \<Rightarrow> nat \<Rightarrow> 'a list" where
  "splice1 xs i = take i xs @ drop (Suc i) xs"

text \<open>\<^verbatim>\<open>handleMischiefDraw()\<close>\<close>

definition handleMischiefDraw :: "raw_stream \<Rightarrow> game \<Rightarrow> stop option \<times> game" where
  "handleMischiefDraw raw g =
     (if ''isolation'' \<in> set (drawnCards g) then (Some HaltCardPresent, g)
      else
        (case drawCards raw (deck g) 2 (rng g) of
           None \<Rightarrow> (Some TypeError, g)
         | Some (newCards0, pos') \<Rightarrow>
             (let newCards =
                    (if length newCards0 > 0 \<and> newCards0 ! 0 = ''isolation'' then [newCards0 ! 0]
                     else if length newCards0 > 1 \<and> newCards0 ! 1 = ''isolation''
                          then take 2 newCards0
                     else newCards0);
                  removed =
                    (case indexOf (drawnCards g) ''mischief'' of
                       Some mischiefIndex \<Rightarrow> splice1 (drawnCards g) mischiefIndex
                     | None \<Rightarrow> drawnCards g);
                  appended = removed @ newCards
              in (None, g\<lparr>drawnCards := sliceAtIsolation appended, rng := pos'\<rparr>))))"

text \<open>The first occurrence of the halt card, if there is one, is the last element.\<close>

definition haltIsLast :: "string list \<Rightarrow> bool" where
  "haltIsLast cards =
     (case indexOf cards ''isolation'' of None \<Rightarrow> True | Some i \<Rightarrow> Suc i = length cards)"

text \<open>
  \<^verbatim>\<open>new CardGame()\<close>: no drawn cards, and \<^verbatim>\<open>new DeckManager()\<close>, which starts from
  an empty deck of the default size and calls \<^verbatim>\<open>createDeck()\<close>. The generator is
  seeded from the clock: \<open>seed\<close> is any starting position.
\<close>

definition newGame :: "raw_stream \<Rightarrow> nat \<Rightarrow> game" where
  "newGame raw seed =
     createDeck raw NoSize None \<lparr>deck = [], deckSize = DEFAULT_SIZE, drawnCards = [], rng = seed\<rparr>"

text \<open>
  The states of a game: the constructor, then the three callbacks that
  \<^verbatim>\<open>CardGame.init\<close> wires to the user interface, in any order.
\<close>

inductive reachable :: "raw_stream \<Rightarrow> game \<Rightarrow> bool" for raw :: raw_stream where
  start: "reachable raw (newGame raw seed)"
| draw: "reachable raw g \<Longrightarrow> reachable raw (snd (handleDrawCards raw cnt g))"
| resize: "reachable raw g \<Longrightarrow> reachable raw (handleDeckSizeChange raw sz selectedCards g)"
| bonus: "reachable raw g \<Longrightarrow> reachable raw (snd (handleMischiefDraw raw g))"

section \<open>CardEffects\<close>

text \<open>\<^verbatim>\<open>Number.prototype.toString\<close> on a non-negative integer: its decimal digits.\<close>

definition digitChar :: "nat \<Rightarrow> char" where
  "digitChar d = ''0123456789'' ! d"

fun toString :: "nat \<Rightarrow> string" where
  "toString n = (if n < 10 then [digitChar n] else toString (n div 10) @ [digitChar (n mod 10)])"

declare toString.simps [simp del]

text \<open>
  What \<^verbatim>\<open>getEffect\<close> returns: a string (\<open>Plain\<close>); the objects
  \<^verbatim>\<open>{type, count, damageTypes}\<close> of chaos and order, \<^verbatim>\<open>{type, count, choices}\<close> of
  coin, \<^verbatim>\<open>{text, isCurse: true}\<close> of the curses and \<^verbatim>\<open>{type, count, text}\<close> of
  mischief; or \<^verbatim>\<open>null\<close> (\<open>None\<close>). A choice is \<^verbatim>\<open>{value, label, quantity, worth}\<close>.
\<close>

datatype choice = Choice string string nat nat

datatype effect =
    Plain string
  | ResistanceChoice string nat "string list"
  | RewardChoice string nat "choice list"
  | CurseText string
  | BonusDrawOffer string nat string

definition getEffect :: "string \<Rightarrow> nat \<Rightarrow> effect option" where
  "getEffect cardName cnt =
     (if cnt = 0 then None
      else if cardName = ''beginning'' then
         (let d10Count = 2 * cnt
           in Some (Plain
              (''Your hit point maximum and current hit points increase by '' @
               toString d10Count @
               ''d10. Your hit point maximum remains increased in this way for '' @
               ''the next 8 hours.'')))
      else if cardName = ''champion'' then
         (let bonus = cnt
           in Some (Plain
              (''You gain a +'' @
               toString bonus @
               '' bonus to weapon attack and damage rolls. This bonus lasts for '' @
               ''8 hours.'')))
      else if cardName = ''chancellor'' then
         Some (Plain
              (''Within 8 hours of drawing this card, you can cast Augury once '' @
               ''as an action, requiring no material components. Use your '' @
               ''Intelligence, Wisdom, or Charisma as the spellcasting ability '' @
               ''(your choice).''))
      else if cardName = ''chaos'' then
         Some (ResistanceChoice ''chaos'' cnt [''acid'', ''cold'', ''fire'', ''lightning'', ''thunder''])
      else if cardName = ''coin'' then
         Some (RewardChoice ''coin'' cnt
             [Choice ''jewelry'' ''Jewelry'' 5 100,
              Choice ''gemstones'' ''Gemstones'' 10 50])
      else if cardName = ''crown'' then
         Some (Plain
              (''You learn the Friends cantrip. Use your Intelligence, Wisdom, '' @
               ''or Charisma as the spellcasting ability (your choice). If you '' @
               ''already know this cantrip, the card has no effect.''))
      else if cardName = ''dawn'' then
         Some (Plain
              (''This card invigorates you. For the next 8 hours, you can add '' @
               ''your proficiency bonus to your initiative rolls.''))
      else if cardName = ''day'' then
         (let bonus = cnt
           in Some (Plain
              (''You gain a +'' @
               toString bonus @
               '' bonus to saving throws. This benefit lasts until you finish a '' @
               ''long rest.'')))
      else if cardName = ''destiny'' then
         Some (Plain
              (''This card protects you against an untimely demise. The first '' @
               ''time after drawing this card that you would drop to 0 hit '' @
               ''points from taking damage, you instead drop to 1 hit point.''))
      else if cardName = ''dusk'' then
         Some (CurseText
              (''This card supernaturally saps your energy. You have '' @
               ''disadvantage on initiative rolls. This effect lasts until you '' @
               ''finish a long rest, but it can be ended early by a Remove Curse '' @
               ''spell or similar magic.''))
      else if cardName = ''end'' then
         (let d10Count = 2 * cnt
           in Some (CurseText
              (''This card is an omen of death. You take '' @
               toString d10Count @
               ''d10 necrotic damage, and your hit point maximum is reduced by '' @
               ''an amount equal to the damage taken. This effect can't reduce '' @
               ''your hit point maximum below 10 hit points. This reduction '' @
               ''lasts until you finish a long rest, but it can be ended early '' @
               ''by a Remove Curse spell or similar magic.'')))
      else if cardName = ''isolation'' then
         Some (CurseText
              (''You disappear, along with anything you are wearing or carrying, '' @
               ''and become trapped in a harmless extradimensional space for 1d4 '' @
               ''minutes. You draw no more cards. You then reappear in the space '' @
               ''you left or the nearest unoccupied space. When you reappear, '' @
               ''you must succeed on a DC 11 Constitution saving throw or have '' @
               ''the poisoned condition for 1 hour as your body reels from the '' @
               ''extradimensional travel.''))
      else if cardName = ''justice'' then
         Some (Plain
              (''You momentarily gain the ability to balance the scales of fate. '' @
               ''For the next 8 hours, whenever you or a creature within 60 feet '' @
               ''of you is about to roll a d20 with advantage or disadvantage, '' @
               ''you can use your reaction to prevent the roll from being '' @
               ''affected by advantage or disadvantage.''))
      else if cardName = ''knife'' then
         (let weaponCount = (if cnt = 1 then ''An'' else toString cnt);
               weaponText = (if cnt = 1 then ''weapon'' else ''weapons'')
           in Some (Plain
              (weaponCount @
               '' uncommon magic '' @
               weaponText @
               '' you're proficient with '' @
               (if cnt = 1 then ''appears'' else ''appear'') @
               '' in your hands. The DM chooses the '' @
               weaponText @
               ''.'')))
      else if cardName = ''lock'' then
         (let d3Count = cnt
           in Some (Plain
              (''You gain the ability to cast Knock '' @
               toString d3Count @
               ''d3 times. Use your Intelligence, Wisdom, or Charisma as the '' @
               ''spellcasting ability (your choice).'')))
      else if cardName = ''monster'' then
         (let d4Count = cnt
           in Some (CurseText
              (''This card's monstrous visage curses you. While cursed in this '' @
               ''way, whenever you make a saving throw, you must roll '' @
               toString d4Count @
               ''d4 and subtract the number rolled from the total. The curse '' @
               ''lasts until you finish a long rest, but it can be ended early '' @
               ''with a Remove Curse spell or similar magic.'')))
      else if cardName = ''mystery'' then
         Some (CurseText
              (''You have disadvantage on Intelligence saving throws for 1 hour. '' @
               ''Discard this card and draw from the deck again; together, the '' @
               ''two draws count as one of your declared draws.''))
      else if cardName = ''night'' then
         Some (Plain
              (''You gain darkvision within a range of 300 feet. This darkvision '' @
               ''lasts for 8 hours.''))
      else if cardName = ''order'' then
         Some (ResistanceChoice ''order'' cnt [''force'', ''necrotic'', ''poison'', ''psychic'', ''radiant''])
      else if cardName = ''student'' then
         Some (Plain
              (''You gain proficiency in Wisdom saving throws. If you already '' @
               ''have this proficiency, you instead gain proficiency in '' @
               ''Intelligence or Charisma saving throws (your choice).''))
      else if cardName = ''vulture'' then
         (let itemText = (if cnt = 1 then ''item or piece of equipment'' else ''items or pieces of equipment'');
               numberText = (if cnt = 1 then ''One'' else toString cnt)
           in Some (CurseText
              (numberText @
               '' nonmagical '' @
               itemText @
               '' in your possession (chosen by the DM) '' @
               (if cnt = 1 then ''disappears'' else ''disappear'') @
               ''. The '' @
               (if cnt = 1 then ''item'' else ''items'') @
               '' remain nearby but concealed for a short time, so '' @
               (if cnt = 1 then ''it can'' else ''they can'') @
               '' be found with a successful DC 15 Wisdom (Perception) check. If '' @
               ''the '' @
               (if cnt = 1 then ''item isn't'' else ''items aren't'') @
               '' recovered within 1 hour, '' @
               (if cnt = 1 then ''it disappears'' else ''they disappear'') @
               '' forever.'')))
      else if cardName = ''mischief'' then
         (let itemCount = cnt;
               additionalCards = cnt * 2;
               itemText = (if cnt = 1 then ''item'' else ''items'')
           in Some (BonusDrawOffer ''mischief'' cnt
              (''You receive '' @
               (if cnt = 1 then ''an'' else toString cnt) @
               '' uncommon wondrous '' @
               itemText @
               '' (chosen by the DM), or you can draw '' @
               toString additionalCards @
               '' additional card'' @
               (if additionalCards = 1 then [] else ''s'') @
               '' beyond your declared draws.'')))
      else None)"

text \<open>An entry \<^verbatim>\<open>{card, count, effect}\<close> of the result lists.\<close>

record effectData =
  card :: string
  cardCount :: nat
  effect :: effect

record effectLists =
  regular :: "effectData list"
  curses :: "effectData list"

text \<open>
  A JavaScript \<^verbatim>\<open>Map\<close> keeps its keys in the order of first insertion: an
  association list, where \<^verbatim>\<open>set\<close> updates the entry of a known key in place and
  appends a new key. \<^verbatim>\<open>(m.get(k) || 0) + 1\<close> is \<open>tallyNext\<close>.
\<close>

fun mapSet :: "('k \<times> 'v) list \<Rightarrow> 'k \<Rightarrow> 'v \<Rightarrow> ('k \<times> 'v) list" where
  "mapSet [] k v = [(k, v)]"
| "mapSet ((k', v') # m) k v = (if k' = k then (k, v) # m else (k', v') # mapSet m k v)"

definition tallyNext :: "(string \<times> nat) list \<Rightarrow> string \<Rightarrow> nat" where
  "tallyNext m k = (case map_of m k of None \<Rightarrow> 0 | Some n \<Rightarrow> n) + 1"

definition countCards :: "string list \<Rightarrow> (string \<times> nat) list" where
  "countCards drawn = fold (\<lambda>card counts. mapSet counts card (tallyNext counts card)) drawn []"

text \<open>\<^verbatim>\<open>if (effect)\<close>: \<^verbatim>\<open>null\<close> and the empty string are falsy, every object is truthy.\<close>

fun truthy :: "effect option \<Rightarrow> bool" where
  "truthy None = False"
| "truthy (Some (Plain s)) = (s \<noteq> [])"
| "truthy (Some _) = True"

text \<open>The loop over \<^verbatim>\<open>cardCounts.entries()\<close>, with the two result arrays.\<close>

fun effectsLoop ::
  "(string \<times> nat) list \<Rightarrow> effectData list \<Rightarrow> effectData list \<Rightarrow> effectLists" where
  "effectsLoop [] regularEffects curseEffects =
     \<lparr>regular = regularEffects, curses = curseEffects\<rparr>"
| "effectsLoop ((cardName, cnt) # entries) regularEffects curseEffects =
     (let e = getEffect cardName cnt
      in if truthy e then
           (case e of
              Some (CurseText t) \<Rightarrow>
                effectsLoop entries regularEffects
                  (curseEffects @ [\<lparr>card = cardName, cardCount = cnt, effect = Plain t\<rparr>])
            | Some ef \<Rightarrow>
                effectsLoop entries
                  (regularEffects @ [\<lparr>card = cardName, cardCount = cnt, effect = ef\<rparr>])
                  curseEffects
            | None \<Rightarrow> effectsLoop entries regularEffects curseEffects)
         else effectsLoop entries regularEffects curseEffects)"

definition calculateEffects :: "string list \<Rightarrow> effectLists" where
  "calculateEffects drawn =
     (if length drawn = 0 then \<lparr>regular = [], curses = []\<rparr>
      else effectsLoop (countCards drawn) [] [])"

definition calculateChaosDurations :: "string list \<Rightarrow> (string \<times> nat) list" where
  "calculateChaosDurations selections =
     fold (\<lambda>damageType durations. mapSet durations damageType (tallyNext durations damageType))
       selections []"

definition calculateOrderDurations :: "string list \<Rightarrow> (string \<times> nat) list" where
  "calculateOrderDurations selections =
     fold (\<lambda>damageType durations. mapSet durations damageType (tallyNext durations damageType))
       selections []"

section \<open>Dice roller\<close>

definition isDigit :: "char \<Rightarrow> bool" where
  "isDigit c = (c \<in> set ''0123456789'')"

text \<open>The class \<^verbatim>\<open>\w\<close> of a regular expression without the unicode flag.\<close>

definition isWordChar :: "char \<Rightarrow> bool" where
  "isWordChar c =
     (c \<in> set ''abcdefghijklmnopqrstuvwxyzABCDEFGHIJKLMNOPQRSTUVWXYZ0123456789_'')"

definition digitVal :: "char \<Rightarrow> nat" where
  "digitVal c = (case indexOf ''0123456789'' c of None \<Rightarrow> 0 | Some d \<Rightarrow> d)"

text \<open>
  \<^verbatim>\<open>parseInt(s, 10)\<close> on a string of digits. The source computes in double
  precision: the model is exact, which agrees below \<open>2 ^ 53\<close>.
\<close>

definition parseInt :: "string \<Rightarrow> nat" where
  "parseInt ds = foldl (\<lambda>acc c. acc * 10 + digitVal c) 0 ds"

text \<open>\<^verbatim>\<open>String.prototype.includes\<close>\<close>

fun includesStr :: "string \<Rightarrow> string \<Rightarrow> bool" where
  "includesStr [] sub = (sub = [])"
| "includesStr (c # cs) sub = (take (length sub) (c # cs) = sub \<or> includesStr cs sub)"

record parsed =
  quantity :: nat
  sides :: nat
  keepHighest :: bool

text \<open>
  \<^verbatim>\<open>parseDiceExpression\<close>. The match of \<^verbatim>\<open>/^(\d+)d(\d+)(?:kh1)?$/\<close>: each
  \<^verbatim>\<open>\d+\<close> takes a whole run of digits (a shorter run leaves a digit where \<open>d\<close>,
  \<open>k\<close> or the end is required), then nothing or \<open>kh1\<close> is left.
\<close>

definition parseDiceExpression :: "string \<Rightarrow> parsed option" where
  "parseDiceExpression diceExpression =
     (let ds1 = takeWhile isDigit diceExpression; r1 = dropWhile isDigit diceExpression
      in if ds1 = [] then None
         else (case r1 of
                 [] \<Rightarrow> None
               | c # r2 \<Rightarrow>
                   if c \<noteq> CHR ''d'' then None
                   else (let ds2 = takeWhile isDigit r2; r3 = dropWhile isDigit r2
                         in if ds2 = [] then None
                            else if r3 \<noteq> [] \<and> r3 \<noteq> ''kh1'' then None
                            else (let quantity = parseInt ds1;
                                      sides = parseInt ds2;
                                      hasKeepHighest = includesStr diceExpression ''kh1''
                                  in if quantity < 1 \<or> sides < 1 then None
                                     else Some \<lparr>quantity = quantity, sides = sides,
                                                keepHighest = hasKeepHighest\<rparr>))))"

text \<open>The two loops of \<^verbatim>\<open>rollDiceExpression\<close>; the argument after \<open>nsides\<close> counts the rolls left.\<close>

fun maxLoop :: "raw_stream \<Rightarrow> nat \<Rightarrow> nat \<Rightarrow> nat \<Rightarrow> nat \<Rightarrow> nat \<times> nat" where
  "maxLoop raw nsides 0 mx pos = (mx, pos)"
| "maxLoop raw nsides (Suc n) mx pos =
     (let (roll, pos') = randomInt raw 1 nsides pos
      in maxLoop raw nsides n (max mx roll) pos')"

fun sumLoop :: "raw_stream \<Rightarrow> nat \<Rightarrow> nat \<Rightarrow> nat \<Rightarrow> nat \<Rightarrow> nat \<times> nat" where
  "sumLoop raw nsides 0 tot pos = (tot, pos)"
| "sumLoop raw nsides (Suc n) tot pos =
     (let (roll, pos') = randomInt raw 1 nsides pos
      in sumLoop raw nsides n (tot + roll) pos')"

text \<open>
  \<^verbatim>\<open>rollDiceExpression\<close>: the value, the generator position, and the messages
  written with \<^verbatim>\<open>console.error\<close>.
\<close>

definition rollDiceExpression :: "raw_stream \<Rightarrow> string \<Rightarrow> nat \<Rightarrow> nat \<times> nat \<times> string list" where
  "rollDiceExpression raw diceExpression pos =
     (case parseDiceExpression diceExpression of
        None \<Rightarrow> (0, pos, [''Invalid dice expression: \"'' @ diceExpression @ ''\"''])
      | Some p \<Rightarrow>
          if keepHighest p then
            (if quantity p = 0 then (0, pos, [])
             else (let (mx, pos') = maxLoop raw (sides p) (quantity p) 0 pos in (mx, pos', [])))
          else (let (tot, pos') = sumLoop raw (sides p) (quantity p) 0 pos in (tot, pos', [])))"

text \<open>\<^verbatim>\<open>\b\<close> after a word character: the end of the text or a character outside \<^verbatim>\<open>\w\<close>.\<close>

definition boundaryAfterWord :: "string \<Rightarrow> bool" where
  "boundaryAfterWord rest = (case rest of [] \<Rightarrow> True | c # _ \<Rightarrow> \<not> isWordChar c)"

text \<open>
  A match of \<^verbatim>\<open>(\d+d\d+(?:kh1)?)\b\<close> at the head of \<open>s\<close>: the token and the text
  after it. Both \<^verbatim>\<open>\d+\<close> take whole runs of digits, as above; \<open>kh1\<close> is taken when a
  boundary follows it, and without it the boundary must follow the digits.
\<close>

definition matchDiceAt :: "string \<Rightarrow> (string \<times> string) option" where
  "matchDiceAt s =
     (let ds1 = takeWhile isDigit s; r1 = dropWhile isDigit s
      in if ds1 = [] then None
         else (case r1 of
                 [] \<Rightarrow> None
               | c # r2 \<Rightarrow>
                   if c \<noteq> CHR ''d'' then None
                   else (let ds2 = takeWhile isDigit r2; r3 = dropWhile isDigit r2
                         in if ds2 = [] then None
                            else if take 3 r3 = ''kh1'' \<and> boundaryAfterWord (drop 3 r3)
                              then Some (ds1 @ ''d'' @ ds2 @ ''kh1'', drop 3 r3)
                            else if boundaryAfterWord r3 then Some (ds1 @ ''d'' @ ds2, r3)
                            else None)))"

text \<open>
  \<^verbatim>\<open>text.replace(/\b(\d+d\d+(?:kh1)?)\b/g, callback)\<close>, from left to right.
  \<open>prevWord\<close> tells whether the character before the current position is in
  \<^verbatim>\<open>\w\<close>: a match starts with a digit, so \<^verbatim>\<open>\b\<close> before it asks for \<open>\<not> prevWord\<close>.
  The search resumes after a match, whose last character is in \<^verbatim>\<open>\w\<close>.
\<close>

function scanDice :: "raw_stream \<Rightarrow> bool \<Rightarrow> string \<Rightarrow> nat \<Rightarrow> string \<times> nat \<times> string list" where
  "scanDice raw prevWord [] pos = ([], pos, [])"
| "scanDice raw prevWord (c # cs) pos =
     (case (if prevWord then None else matchDiceAt (c # cs)) of
        Some (tok, rest) \<Rightarrow>
          (let (rolledValue, pos', errs) = rollDiceExpression raw tok pos;
               (out, pos'', errs') = scanDice raw True rest pos'
           in (toString rolledValue @ out, pos'', errs @ errs'))
      | None \<Rightarrow>
          (let (out, pos', errs) = scanDice raw (isWordChar c) cs pos
           in (c # out, pos', errs)))"
  by pat_completeness auto

termination scanDice
proof (relation "measure (\<lambda>(raw, prevWord, s, pos). length s)")
  show "wf (measure (\<lambda>(raw, prevWord, s, pos). length s))" by simp
next
  fix raw :: raw_stream and prevWord c cs and pos pos' :: nat and x2 tok rest
  assume m: "(if prevWord then None else matchDiceAt (c # cs)) = Some x2" and x: "(tok, rest) = x2"
  have d1: "length (dropWhile isDigit (c # cs)) \<le> length (c # cs)" by (rule length_dropWhile_le)
  have "length rest < length (c # cs)"
  proof (cases "dropWhile isDigit (c # cs)")
    case Nil
    with m x show ?thesis by (simp add: matchDiceAt_def Let_def split: if_splits)
  next
    case (Cons a r2)
    have d2: "length (dropWhile isDigit r2) \<le> length r2" by (rule length_dropWhile_le)
    from m x Cons have "rest = drop 3 (dropWhile isDigit r2) \<or> rest = dropWhile isDigit r2"
      by (auto simp: matchDiceAt_def Let_def split: if_splits)
    then have "length rest \<le> length r2" using d2 by auto
    with d1 Cons show ?thesis by simp
  qed
  then show "((raw, True, rest, pos'), raw, prevWord, c # cs, pos)
       \<in> measure (\<lambda>(raw, prevWord, s, pos). length s)" by simp
next
  fix raw :: raw_stream and prevWord c cs and pos :: nat
  show "((raw, isWordChar c, cs, pos), raw, prevWord, c # cs, pos)
       \<in> measure (\<lambda>(raw, prevWord, s, pos). length s)" by simp
qed

definition rollDiceInText :: "raw_stream \<Rightarrow> string \<Rightarrow> nat \<Rightarrow> string \<times> nat \<times> string list" where
  "rollDiceInText raw text pos = scanDice raw False text pos"

section \<open>Effect renderers\<close>

text \<open>\<^verbatim>\<open>capitalizeFirst\<close>; \<^verbatim>\<open>toUpperCase\<close> on the ASCII letters.\<close>

definition toUpperCase :: "char \<Rightarrow> char" where
  "toUpperCase c =
     (case indexOf ''abcdefghijklmnopqrstuvwxyz'' c of
        Some i \<Rightarrow> ''ABCDEFGHIJKLMNOPQRSTUVWXYZ'' ! i
      | None \<Rightarrow> c)"

definition capitalizeFirst :: "string \<Rightarrow> string" where
  "capitalizeFirst str = (case str of [] \<Rightarrow> str | c # cs \<Rightarrow> toUpperCase c # cs)"

text \<open>
  The text of one duration item in \<^verbatim>\<open>renderChaosEffect\<close> and
  \<^verbatim>\<open>renderOrderEffect\<close>.
\<close>

definition diceNotation :: "nat \<Rightarrow> string" where
  "diceNotation d12Count =
     (if d12Count = 1 then toString d12Count @ ''d12'' else toString d12Count @ ''d12kh1'')"

definition durationItemText :: "string \<Rightarrow> nat \<Rightarrow> string" where
  "durationItemText damageType d12Count =
     capitalizeFirst damageType @ '': '' @ diceNotation d12Count @ '' days''"

text \<open>A raw stream for examples: the listed values, then zeros.\<close>

definition tape :: "nat list \<Rightarrow> raw_stream" where
  "tape xs pos = (if pos < length xs then xs ! pos else 0)"

section \<open>Facts about the list helpers\<close>

lemma indexOf_None_iff: "indexOf xs c = None \<longleftrightarrow> c \<notin> set xs"
  by (induction xs) auto

lemma indexOf_Some_less: "indexOf xs c = Some i \<Longrightarrow> i < length xs"
  by (induction xs arbitrary: i) (auto split: if_splits)

lemma indexOf_Some_nth: "indexOf xs c = Some i \<Longrightarrow> xs ! i = c"
  by (induction xs arbitrary: i) (auto split: if_splits)

lemma indexOf_Some_first: "indexOf xs c = Some i \<Longrightarrow> c \<notin> set (take i xs)"
  by (induction xs arbitrary: i) (auto split: if_splits)

lemma indexOf_take: "indexOf xs c = Some i \<Longrightarrow> indexOf (take (Suc i) xs) c = Some i"
  by (induction xs arbitrary: i) (auto split: if_splits)

lemma indexOf_append_notin:
  "c \<notin> set xs \<Longrightarrow>
   indexOf (xs @ ys) c = (case indexOf ys c of None \<Rightarrow> None | Some i \<Rightarrow> Some (length xs + i))"
  by (induction xs) (auto split: option.splits)

lemma haltIsLast_slice: "haltIsLast (sliceAtIsolation cards)"
proof (cases "indexOf cards ''isolation''")
  case None
  then show ?thesis by (simp add: haltIsLast_def sliceAtIsolation_def)
next
  case (Some i)
  then have "indexOf (take (Suc i) cards) ''isolation'' = Some i" and "i < length cards"
    by (simp_all add: indexOf_take indexOf_Some_less)
  with Some show ?thesis by (simp add: haltIsLast_def sliceAtIsolation_def min_def)
qed

lemma haltIsLast_notin: "''isolation'' \<notin> set cards \<Longrightarrow> haltIsLast cards"
  using indexOf_None_iff [of cards "''isolation''"] by (simp add: haltIsLast_def)

lemma slice_notin: "''isolation'' \<notin> set cards \<Longrightarrow> sliceAtIsolation cards = cards"
  using indexOf_None_iff [of cards "''isolation''"] by (simp add: sliceAtIsolation_def)

lemma extendLoop_Suc_halt:
  assumes "drawCards raw dk 1 pos = Some (extraCards, pos')"
    and "indexOf (drawn @ extraCards) ''isolation'' = Some i"
    and "extraCards \<noteq> []"
  shows "extendLoop raw dk (Suc n) drawn pos = (take (Suc i) (drawn @ extraCards), pos')"
  using assms by simp

lemma extendLoop_Suc_go:
  assumes "drawCards raw dk 1 pos = Some (extraCards, pos')"
    and "indexOf (drawn @ extraCards) ''isolation'' = None"
  shows "extendLoop raw dk (Suc n) drawn pos = extendLoop raw dk n (drawn @ extraCards) pos'"
  using assms by (cases "extraCards = []") simp_all

lemma haltIsLast_extendLoop:
  "''isolation'' \<notin> set drawn \<Longrightarrow> haltIsLast (fst (extendLoop raw dk n drawn pos))"
proof (induction n arbitrary: drawn pos)
  case 0
  then show ?case by (simp add: haltIsLast_notin)
next
  case (Suc n)
  show ?case
  proof (cases "drawCards raw dk 1 pos")
    case None
    with Suc show ?thesis by simp
  next
    case (Some r)
    obtain extraCards pos' where r: "drawCards raw dk 1 pos = Some (extraCards, pos')"
      using Some by (cases r) simp
    show ?thesis
    proof (cases "indexOf (drawn @ extraCards) ''isolation''")
      case None
      then have "''isolation'' \<notin> set (drawn @ extraCards)" using indexOf_None_iff by fastforce
      then have "haltIsLast (fst (extendLoop raw dk n (drawn @ extraCards) pos'))"
        by (rule Suc.IH)
      then show ?thesis by (simp only: extendLoop_Suc_go [OF r None])
    next
      case (Some i)
      have "haltIsLast (sliceAtIsolation (drawn @ extraCards))" by (rule haltIsLast_slice)
      with Some have h: "haltIsLast (take (Suc i) (drawn @ extraCards))"
        by (simp add: sliceAtIsolation_def)
      have "extraCards \<noteq> []"
      proof
        assume "extraCards = []"
        with Some have "indexOf drawn ''isolation'' \<noteq> None" by simp
        with Suc.prems show False by (simp add: indexOf_None_iff)
      qed
      then have "extendLoop raw dk (Suc n) drawn pos = (take (Suc i) (drawn @ extraCards), pos')"
        by (rule extendLoop_Suc_halt [OF r Some])
      with h show ?thesis by simp
    qed
  qed
qed

lemma haltIsLast_iff:
  "haltIsLast cards \<longleftrightarrow> (\<forall>i j. i < j \<and> j < length cards \<longrightarrow> cards ! i \<noteq> ''isolation'')"
proof (cases "indexOf cards ''isolation''")
  case None
  then have "''isolation'' \<notin> set cards" using indexOf_None_iff by fastforce
  then have "\<forall>i<length cards. cards ! i \<noteq> ''isolation''" by (metis nth_mem)
  with None show ?thesis by (auto simp: haltIsLast_def)
next
  case (Some k)
  note k = indexOf_Some_less [OF Some] indexOf_Some_nth [OF Some] indexOf_Some_first [OF Some]
  show ?thesis
  proof
    assume "haltIsLast cards"
    with Some have len: "Suc k = length cards" by (simp add: haltIsLast_def)
    show "\<forall>i j. i < j \<and> j < length cards \<longrightarrow> cards ! i \<noteq> ''isolation''"
    proof (intro allI impI)
      fix i j assume ij: "i < j \<and> j < length cards"
      with len have "i < k" by simp
      with k(1) have "cards ! i \<in> set (take k cards)"
        by (metis in_set_conv_nth length_take min.absorb2 less_imp_le nth_take)
      with k(3) show "cards ! i \<noteq> ''isolation''" by metis
    qed
  next
    assume r: "\<forall>i j. i < j \<and> j < length cards \<longrightarrow> cards ! i \<noteq> ''isolation''"
    have "\<not> Suc k < length cards" using r k(2) by blast
    with k(1) have "Suc k = length cards" by simp
    with Some show "haltIsLast cards" by (simp add: haltIsLast_def)
  qed
qed

section \<open>The halt rule\<close>

lemma haltIsLast_extendLoop_eq:
  "extendLoop raw dk n drawn pos = (drawn', pos') \<Longrightarrow> ''isolation'' \<notin> set drawn \<Longrightarrow>
   haltIsLast drawn'"
  using haltIsLast_extendLoop [of drawn raw dk n pos] by simp

lemma handleDrawCards_halt:
  "fst (handleDrawCards raw cnt g) = None \<Longrightarrow>
   haltIsLast (drawnCards (snd (handleDrawCards raw cnt g)))"
  by (auto simp: handleDrawCards_def Let_def haltIsLast_slice
      split: if_splits option.splits prod.splits
      dest: haltIsLast_extendLoop_eq)

lemma handleMischiefDraw_halt:
  "fst (handleMischiefDraw raw g) = None \<Longrightarrow>
   haltIsLast (drawnCards (snd (handleMischiefDraw raw g)))"
  by (simp add: handleMischiefDraw_def Let_def haltIsLast_slice
      split: if_splits option.splits prod.splits)

text \<open>
  C1. Whenever \<^verbatim>\<open>handleDrawCards\<close> or \<^verbatim>\<open>handleMischiefDraw\<close> runs to its end, the
  drawn cards it leaves hold the halt card \<open>isolation\<close> at most as their last element:
  the first occurrence, if any, is the last card, so no card follows it.
\<close>

theorem halt_card_is_last:
  "(fst (handleDrawCards raw cnt g) = None \<longrightarrow>
      haltIsLast (drawnCards (snd (handleDrawCards raw cnt g)))) \<and>
   (fst (handleMischiefDraw raw g) = None \<longrightarrow>
      haltIsLast (drawnCards (snd (handleMischiefDraw raw g))))"
  using handleDrawCards_halt handleMischiefDraw_halt by blast

theorem halt_card_is_last_witness:
  "fst (handleDrawCards (tape [1, 0, 1]) 3
          \<lparr>deck = [''isolation'', ''champion''], deckSize = 2, drawnCards = [], rng = 0\<rparr>) = None \<and>
   drawnCards (snd (handleDrawCards (tape [1, 0, 1]) 3
          \<lparr>deck = [''isolation'', ''champion''], deckSize = 2, drawnCards = [], rng = 0\<rparr>))
     = [''champion'', ''isolation''] \<and>
   haltIsLast [''champion'', ''isolation''] \<and>
   fst (handleMischiefDraw (tape [1, 0])
          \<lparr>deck = [''isolation'', ''champion''], deckSize = 2,
            drawnCards = [''mischief'', ''day''], rng = 0\<rparr>) = None \<and>
   drawnCards (snd (handleMischiefDraw (tape [1, 0])
          \<lparr>deck = [''isolation'', ''champion''], deckSize = 2,
            drawnCards = [''mischief'', ''day''], rng = 0\<rparr>))
     = [''day'', ''champion'', ''isolation''] \<and>
   haltIsLast [''day'', ''champion'', ''isolation'']"
proof -
  let ?g = "\<lparr>deck = [''isolation'', ''champion''], deckSize = 2, drawnCards = [], rng = 0\<rparr>"
  let ?h = "\<lparr>deck = [''isolation'', ''champion''], deckSize = 2,
             drawnCards = [''mischief'', ''day''], rng = 0\<rparr>"
  have d: "handleDrawCards (tape [1, 0, 1]) 3 ?g =
             (None, ?g\<lparr>drawnCards := [''champion'', ''isolation''], rng := 3\<rparr>)"
    by code_simp
  have m: "handleMischiefDraw (tape [1, 0]) ?h =
             (None, ?h\<lparr>drawnCards := [''day'', ''champion'', ''isolation''], rng := 2\<rparr>)"
    by code_simp
  have "haltIsLast [''champion'', ''isolation'']"
    using halt_card_is_last [of "tape [1, 0, 1]" 3 ?g] unfolding d by simp
  moreover have "haltIsLast [''day'', ''champion'', ''isolation'']"
    using halt_card_is_last [of "tape [1, 0]" 3 ?h] unfolding m by simp
  ultimately show ?thesis unfolding d m by simp
qed

section \<open>The bonus draw is refused once the halt card is out\<close>

text \<open>
  C4. When the drawn cards hold the halt card \<open>isolation\<close>, \<^verbatim>\<open>handleMischiefDraw\<close>
  returns at its first check: the whole state is as it was, so no card is sampled,
  removed or appended.
\<close>

theorem bonus_draw_refused_after_halt:
  "''isolation'' \<in> set (drawnCards g) \<Longrightarrow> handleMischiefDraw raw g = (Some HaltCardPresent, g)"
  by (simp add: handleMischiefDraw_def)

theorem bonus_draw_refused_after_halt_witness:
  "''isolation'' \<in> set [''mischief'', ''isolation''] \<and>
   handleMischiefDraw (tape [1, 1])
     \<lparr>deck = TAROT_FULL, deckSize = 22, drawnCards = [''mischief'', ''isolation''], rng = 0\<rparr>
   = (Some HaltCardPresent,
      \<lparr>deck = TAROT_FULL, deckSize = 22, drawnCards = [''mischief'', ''isolation''], rng = 0\<rparr>)"
  using bonus_draw_refused_after_halt
    [of "\<lparr>deck = TAROT_FULL, deckSize = 22, drawnCards = [''mischief'', ''isolation''], rng = 0\<rparr>"
        "tape [1, 1]"]
  by simp

section \<open>The extension pass\<close>

lemma drawLoop_Suc:
  "drawLoop raw dk (Suc n) pos =
     (dk ! (raw pos mod (length dk - 1 + 1)) # fst (drawLoop raw dk n (Suc pos)),
      snd (drawLoop raw dk n (Suc pos)))"
  by (simp add: randomInt_def split: prod.splits)

lemma drawLoop_length: "length (fst (drawLoop raw dk n pos)) = n"
  by (induction n arbitrary: pos) (simp_all add: drawLoop_Suc del: drawLoop.simps(2))

lemma drawLoop_snd: "snd (drawLoop raw dk n pos) = pos + n"
  by (induction n arbitrary: pos) (simp_all add: drawLoop_Suc del: drawLoop.simps(2))

lemma drawLoop_set: "dk \<noteq> [] \<Longrightarrow> set (fst (drawLoop raw dk n pos)) \<subseteq> set dk"
proof (induction n arbitrary: pos)
  case 0
  then show ?case by simp
next
  case (Suc n)
  from Suc.prems have "raw pos mod (length dk - 1 + 1) < length dk" by (cases dk) simp_all
  then have "dk ! (raw pos mod (length dk - 1 + 1)) \<in> set dk" by (rule nth_mem)
  with Suc.IH [OF Suc.prems, of "Suc pos"] show ?case
    by (simp add: drawLoop_Suc del: drawLoop.simps(2))
qed

lemma drawCards_one:
  "dk \<noteq> [] \<Longrightarrow>
   drawCards raw dk 1 pos = Some ([dk ! (raw pos mod (length dk - 1 + 1))], Suc pos)"
  by (simp add: drawCards_def randomInt_def)

lemma slice_Cons:
  "sliceAtIsolation (c # cs) = (if c = ''isolation'' then [c] else c # sliceAtIsolation cs)"
  by (simp add: sliceAtIsolation_def split: option.splits)

lemma slice_append_notin:
  "''isolation'' \<notin> set xs \<Longrightarrow> sliceAtIsolation (xs @ ys) = xs @ sliceAtIsolation ys"
  by (induction xs) (auto simp: slice_Cons)

lemma extendLoop_closed:
  "dk \<noteq> [] \<Longrightarrow> ''isolation'' \<notin> set drawn \<Longrightarrow>
   extendLoop raw dk m drawn pos =
     (drawn @ sliceAtIsolation (fst (drawLoop raw dk m pos)),
      pos + length (sliceAtIsolation (fst (drawLoop raw dk m pos))))"
proof (induction m arbitrary: drawn pos)
  case 0
  then show ?case by (simp add: sliceAtIsolation_def)
next
  case (Suc m)
  let ?c = "dk ! (raw pos mod (length dk - 1 + 1))"
  note one = drawCards_one [OF Suc.prems(1), of raw pos]
  show ?case
  proof (cases "?c = ''isolation''")
    case True
    with Suc.prems(2) have "indexOf (drawn @ [?c]) ''isolation'' = Some (length drawn)"
      by (simp add: indexOf_append_notin)
    then have "extendLoop raw dk (Suc m) drawn pos = (take (Suc (length drawn)) (drawn @ [?c]), Suc pos)"
      by (intro extendLoop_Suc_halt [OF one]) simp_all
    with True show ?thesis
      by (simp add: drawLoop_Suc slice_Cons del: drawLoop.simps(2) extendLoop.simps(2))
  next
    case False
    with Suc.prems(2) have notin: "''isolation'' \<notin> set (drawn @ [?c])" by simp
    then have "indexOf (drawn @ [?c]) ''isolation'' = None" using indexOf_None_iff by fastforce
    then have "extendLoop raw dk (Suc m) drawn pos = extendLoop raw dk m (drawn @ [?c]) (Suc pos)"
      by (rule extendLoop_Suc_go [OF one])
    with False Suc.IH [OF Suc.prems(1) notin, of "Suc pos"] show ?thesis
      by (simp add: drawLoop_Suc slice_Cons del: drawLoop.simps(2) extendLoop.simps(2))
  qed
qed

text \<open>
  C2. Let \<^verbatim>\<open>handleDrawCards(count)\<close> run to its end, let \<open>drawn\<close> be the \<open>cnt\<close> cards
  it samples first, at generator position \<open>pos\<close> afterwards, and let the halt card be
  absent from \<open>drawn\<close>. Let \<open>extra\<close> be the cards the sampler yields next, one per
  \<open>mystery\<close> in \<open>drawn\<close>. Then the outcome is \<open>drawn\<close> followed by \<open>extra\<close> cut after its
  first \<open>isolation\<close>, and the sampler has advanced by exactly the cards that were
  appended: one extra card per original \<open>mystery\<close>, none for a \<open>mystery\<close> among the
  extra cards, none after an appended \<open>isolation\<close>, and no bound on the final length.
\<close>

theorem extension_pass:
  assumes "fst (handleDrawCards raw cnt g) = None"
    and "drawLoop raw (deck g) (nat cnt) (rng g) = (drawn, pos)"
    and "''isolation'' \<notin> set drawn"
    and "fst (drawLoop raw (deck g) (length (filter (\<lambda>card. card = ''mystery'') drawn)) pos) = extra"
  shows "drawnCards (snd (handleDrawCards raw cnt g)) = drawn @ sliceAtIsolation extra \<and>
         rng (snd (handleDrawCards raw cnt g)) = pos + length (sliceAtIsolation extra)"
proof -
  from assms(1) have ne: "deck g \<noteq> []" and c: "\<not> cnt \<le> 0" "\<not> cnt > MAX_DRAW"
    by (auto simp: handleDrawCards_def isEmpty_def split: if_splits)
  from ne assms(2) have dc: "drawCards raw (deck g) (nat cnt) (rng g) = Some (drawn, pos)"
    by (simp add: drawCards_def)
  from assms(3) have sl: "sliceAtIsolation drawn = drawn" by (rule slice_notin)
  show ?thesis
  proof (cases "filter (\<lambda>card. card = ''mystery'') drawn = []")
    case True
    with assms(4) have "extra = []" by simp
    with True c ne dc sl show ?thesis
      by (simp add: handleDrawCards_def isEmpty_def sliceAtIsolation_def)
  next
    case False
    with c ne dc sl assms(3,4) show ?thesis
      by (simp add: handleDrawCards_def isEmpty_def extendLoop_closed)
  qed
qed

theorem extension_pass_witness:
  "drawnCards (snd (handleDrawCards (tape [0, 0, 0, 1]) 2
      \<lparr>deck = [''mystery'', ''champion'', ''isolation''], deckSize = 3, drawnCards = [], rng = 0\<rparr>))
     = [''mystery'', ''mystery''] @ [''mystery'', ''champion''] \<and>
   rng (snd (handleDrawCards (tape [0, 0, 0, 1]) 2
      \<lparr>deck = [''mystery'', ''champion'', ''isolation''], deckSize = 3, drawnCards = [], rng = 0\<rparr>))
     = 2 + 2 \<and>
   drawnCards (snd (handleDrawCards (tape [0, 0, 2, 1]) 2
      \<lparr>deck = [''mystery'', ''champion'', ''isolation''], deckSize = 3, drawnCards = [], rng = 0\<rparr>))
     = [''mystery'', ''mystery''] @ [''isolation''] \<and>
   rng (snd (handleDrawCards (tape [0, 0, 2, 1]) 2
      \<lparr>deck = [''mystery'', ''champion'', ''isolation''], deckSize = 3, drawnCards = [], rng = 0\<rparr>))
     = 2 + 1"
proof -
  let ?g = "\<lparr>deck = [''mystery'', ''champion'', ''isolation''], deckSize = 3,
             drawnCards = [], rng = 0\<rparr>"
  have a1: "fst (handleDrawCards (tape [0, 0, 0, 1]) 2 ?g) = None" by code_simp
  have a2: "drawLoop (tape [0, 0, 0, 1]) (deck ?g) (nat 2) (rng ?g) = ([''mystery'', ''mystery''], 2)"
    by code_simp
  have a3: "''isolation'' \<notin> set [''mystery'', ''mystery'']" by simp
  have a4: "fst (drawLoop (tape [0, 0, 0, 1]) (deck ?g)
                  (length (filter (\<lambda>card. card = ''mystery'') [''mystery'', ''mystery''])) 2)
            = [''mystery'', ''champion'']"
    by code_simp
  have s1: "sliceAtIsolation [''mystery'', ''champion''] = [''mystery'', ''champion'']"
    by code_simp
  have b1: "fst (handleDrawCards (tape [0, 0, 2, 1]) 2 ?g) = None" by code_simp
  have b2: "drawLoop (tape [0, 0, 2, 1]) (deck ?g) (nat 2) (rng ?g) = ([''mystery'', ''mystery''], 2)"
    by code_simp
  have b4: "fst (drawLoop (tape [0, 0, 2, 1]) (deck ?g)
                  (length (filter (\<lambda>card. card = ''mystery'') [''mystery'', ''mystery''])) 2)
            = [''isolation'', ''champion'']"
    by code_simp
  have s2: "sliceAtIsolation [''isolation'', ''champion''] = [''isolation'']"
    by code_simp
  show ?thesis
    using extension_pass [OF a1 a2 a3 a4] extension_pass [OF b1 b2 a3 b4]
    unfolding s1 s2 by simp
qed

section \<open>Draws without halt or extend cards\<close>

lemma handleDrawCards_plain:
  assumes "0 < cnt" and "cnt \<le> MAX_DRAW" and "deck g \<noteq> []"
    and "''isolation'' \<notin> set (deck g)" and "''mystery'' \<notin> set (deck g)"
  shows "handleDrawCards raw cnt g =
           (None, g\<lparr>drawnCards := fst (drawLoop raw (deck g) (nat cnt) (rng g)),
                    rng := rng g + nat cnt\<rparr>)"
proof -
  let ?d = "fst (drawLoop raw (deck g) (nat cnt) (rng g))"
  have sub: "set ?d \<subseteq> set (deck g)" using assms(3) by (rule drawLoop_set)
  with assms(4) have "''isolation'' \<notin> set ?d" by blast
  then have sl: "sliceAtIsolation ?d = ?d" by (rule slice_notin)
  from sub assms(5) have "''mystery'' \<notin> set ?d" by blast
  then have nf: "filter (\<lambda>card. card = ''mystery'') ?d = []" by (auto simp: filter_empty_conv)
  have dc: "drawCards raw (deck g) (nat cnt) (rng g) = Some (?d, rng g + nat cnt)"
    using assms(3) drawLoop_snd [of raw "deck g" "nat cnt" "rng g"]
    by (simp add: drawCards_def prod_eq_iff)
  from assms(1,2,3) show ?thesis
    by (simp add: handleDrawCards_def isEmpty_def dc sl nf)
qed

lemma handleDrawCards_above_max:
  "MAX_DRAW < cnt \<Longrightarrow> handleDrawCards raw cnt g = (Some AboveMaxDraw, g)"
  by (simp add: handleDrawCards_def MAX_DRAW_def)

text \<open>
  C3, amended. For every \<open>n\<close> from 1 to \<^verbatim>\<open>MAX_DRAW\<close> (20), if the deck is not empty and
  holds neither \<open>isolation\<close> nor \<open>mystery\<close>, \<^verbatim>\<open>handleDrawCards(n)\<close> runs to its end and
  leaves exactly \<open>n\<close> drawn cards. For every \<open>n\<close> above \<^verbatim>\<open>MAX_DRAW\<close>, whatever the
  state, the handler returns at its second check: nothing is sampled and the drawn cards
  stay as they were (the counterexample: \<open>n = 21\<close> on the reduced deck).
\<close>

theorem draw_length_within_max:
  "(1 \<le> n \<and> n \<le> MAX_DRAW \<and> deck g \<noteq> [] \<and>
    ''isolation'' \<notin> set (deck g) \<and> ''mystery'' \<notin> set (deck g) \<longrightarrow>
      fst (handleDrawCards raw n g) = None \<and>
      int (length (drawnCards (snd (handleDrawCards raw n g)))) = n) \<and>
   (MAX_DRAW < n \<longrightarrow> handleDrawCards raw n g = (Some AboveMaxDraw, g))"
proof (intro conjI impI)
  assume h: "1 \<le> n \<and> n \<le> MAX_DRAW \<and> deck g \<noteq> [] \<and>
    ''isolation'' \<notin> set (deck g) \<and> ''mystery'' \<notin> set (deck g)"
  then have "0 < n" and "n \<le> MAX_DRAW" and "deck g \<noteq> []"
    and "''isolation'' \<notin> set (deck g)" and "''mystery'' \<notin> set (deck g)"
    by simp_all
  note run = handleDrawCards_plain [OF this, of raw]
  from run show "fst (handleDrawCards raw n g) = None" by simp
  from run h show "int (length (drawnCards (snd (handleDrawCards raw n g)))) = n"
    by (simp add: drawLoop_length)
next
  assume "MAX_DRAW < n"
  then show "handleDrawCards raw n g = (Some AboveMaxDraw, g)"
    by (rule handleDrawCards_above_max)
qed

theorem draw_length_within_max_witness:
  "(1::int) \<le> 3 \<and> 3 \<le> MAX_DRAW \<and> TAROT_REDUCED \<noteq> [] \<and>
   ''isolation'' \<notin> set TAROT_REDUCED \<and> ''mystery'' \<notin> set TAROT_REDUCED \<and>
   fst (handleDrawCards (tape [5, 12, 5]) 3
          \<lparr>deck = TAROT_REDUCED, deckSize = 13, drawnCards = [], rng = 0\<rparr>) = None \<and>
   int (length (drawnCards (snd (handleDrawCards (tape [5, 12, 5]) 3
          \<lparr>deck = TAROT_REDUCED, deckSize = 13, drawnCards = [], rng = 0\<rparr>)))) = 3 \<and>
   MAX_DRAW < 25 \<and>
   handleDrawCards (tape [5, 12, 5]) 25
     \<lparr>deck = TAROT_FULL, deckSize = 22, drawnCards = [''day''], rng = 7\<rparr>
   = (Some AboveMaxDraw, \<lparr>deck = TAROT_FULL, deckSize = 22, drawnCards = [''day''], rng = 7\<rparr>)"
proof -
  let ?g = "\<lparr>deck = TAROT_REDUCED, deckSize = 13, drawnCards = [], rng = 0\<rparr>"
  let ?h = "\<lparr>deck = TAROT_FULL, deckSize = 22, drawnCards = [''day''], rng = 7\<rparr>"
  have h: "(1::int) \<le> 3 \<and> 3 \<le> MAX_DRAW \<and> deck ?g \<noteq> [] \<and>
    ''isolation'' \<notin> set (deck ?g) \<and> ''mystery'' \<notin> set (deck ?g)"
    by (simp add: MAX_DRAW_def TAROT_REDUCED_def)
  have k: "MAX_DRAW < 25" by (simp add: MAX_DRAW_def)
  note a = draw_length_within_max [of 3 ?g "tape [5, 12, 5]", THEN conjunct1, rule_format, OF h]
  note b = draw_length_within_max [of 25 ?h "tape [5, 12, 5]", THEN conjunct2, rule_format, OF k]
  from a b h k show ?thesis by simp
qed

theorem draw_length_above_max_counterexample:
  "(1::int) \<le> 21 \<and> TAROT_REDUCED \<noteq> [] \<and>
   ''isolation'' \<notin> set TAROT_REDUCED \<and> ''mystery'' \<notin> set TAROT_REDUCED \<and>
   handleDrawCards (tape []) 21 \<lparr>deck = TAROT_REDUCED, deckSize = 13, drawnCards = [], rng = 0\<rparr>
     = (Some AboveMaxDraw, \<lparr>deck = TAROT_REDUCED, deckSize = 13, drawnCards = [], rng = 0\<rparr>) \<and>
   int (length (drawnCards (snd (handleDrawCards (tape []) 21
          \<lparr>deck = TAROT_REDUCED, deckSize = 13, drawnCards = [], rng = 0\<rparr>)))) \<noteq> 21"
  by (simp add: handleDrawCards_def MAX_DRAW_def TAROT_REDUCED_def)

section \<open>The bonus draw\<close>

lemma splice_first_is_remove1:
  "(case indexOf xs c of Some i \<Rightarrow> splice1 xs i | None \<Rightarrow> xs) = remove1 c xs"
  by (induction xs) (auto simp: splice1_def split: option.splits)

lemma count_list_remove1_same:
  "c \<in> set xs \<Longrightarrow> count_list (remove1 c xs) c = count_list xs c - 1"
  by (induction xs) auto

lemma drawLoop_two:
  "\<exists>c1 c2. fst (drawLoop raw dk 2 pos) = [c1, c2]"
  by (simp add: numeral_2_eq_2 drawLoop_Suc del: drawLoop.simps(2))

lemma handleMischiefDraw_run:
  assumes "''isolation'' \<notin> set (drawnCards g)" and "deck g \<noteq> []"
  shows "handleMischiefDraw raw g =
           (None, g\<lparr>drawnCards := remove1 ''mischief'' (drawnCards g)
                                     @ sliceAtIsolation (fst (drawLoop raw (deck g) 2 (rng g))),
                    rng := rng g + 2\<rparr>)"
proof -
  obtain c1 c2 where d: "fst (drawLoop raw (deck g) 2 (rng g)) = [c1, c2]"
    using drawLoop_two by blast
  then have dc: "drawCards raw (deck g) 2 (rng g) = Some ([c1, c2], rng g + 2)"
    using assms(2) drawLoop_snd [of raw "deck g" 2 "rng g"] by (simp add: drawCards_def prod_eq_iff)
  have "set (remove1 ''mischief'' (drawnCards g)) \<subseteq> set (drawnCards g)" by (rule set_remove1_subset)
  with assms(1) have ni: "''isolation'' \<notin> set (remove1 ''mischief'' (drawnCards g))" by blast
  show ?thesis
    using assms(1)
    by (auto simp: handleMischiefDraw_def dc d Let_def splice_first_is_remove1
        slice_append_notin [OF ni] slice_Cons)
qed

text \<open>
  C5, amended. With the halt card absent from the drawn cards and a deck that is not
  empty, \<^verbatim>\<open>handleMischiefDraw\<close> runs to its end and always samples two cards \<open>c1\<close>,
  \<open>c2\<close> (the generator advances by two). The first \<open>mischief\<close> is taken out of the drawn
  cards; if \<open>c1\<close> is \<open>isolation\<close> only \<open>c1\<close> is appended and \<open>c2\<close>, though sampled, is
  dropped; otherwise both are appended and the result is cut after its first
  \<open>isolation\<close>. The counterexample shows the second card being sampled although the
  first one is \<open>isolation\<close>.
\<close>

theorem bonus_draw_samples_two:
  assumes "''isolation'' \<notin> set (drawnCards g)" and "deck g \<noteq> []"
    and "fst (drawLoop raw (deck g) 2 (rng g)) = [c1, c2]"
  shows "handleMischiefDraw raw g =
           (None, g\<lparr>drawnCards :=
                      (if c1 = ''isolation'' then remove1 ''mischief'' (drawnCards g) @ [c1]
                       else sliceAtIsolation (remove1 ''mischief'' (drawnCards g) @ [c1, c2])),
                    rng := rng g + 2\<rparr>)"
proof -
  have "set (remove1 ''mischief'' (drawnCards g)) \<subseteq> set (drawnCards g)" by (rule set_remove1_subset)
  with assms(1) have ni: "''isolation'' \<notin> set (remove1 ''mischief'' (drawnCards g))" by blast
  show ?thesis
    by (simp add: handleMischiefDraw_run [OF assms(1,2)] assms(3) slice_append_notin [OF ni] slice_Cons)
qed

lemma handleDrawCards_cases:
  "snd (handleDrawCards raw cnt g) = g \<or>
   (deck (snd (handleDrawCards raw cnt g)) = deck g \<and> deck g \<noteq> [])"
  by (auto simp: handleDrawCards_def isEmpty_def Let_def split: option.splits prod.splits)

lemma handleMischiefDraw_cases:
  "snd (handleMischiefDraw raw g) = g \<or>
   (deck (snd (handleMischiefDraw raw g)) = deck g \<and> deck g \<noteq> [])"
  by (auto simp: handleMischiefDraw_def drawCards_def Let_def split: option.splits prod.splits if_splits)

lemma reachable_deck_nonempty:
  "reachable raw g \<Longrightarrow> drawnCards g \<noteq> [] \<Longrightarrow> deck g \<noteq> []"
proof (induction rule: reachable.induct)
  case (start seed)
  then show ?case by (simp add: newGame_def createDeck_def Let_def split: prod.splits)
next
  case (draw g cnt)
  with handleDrawCards_cases [of raw cnt g] show ?case by auto
next
  case (resize g sz selectedCards)
  then show ?case by (simp add: handleDeckSizeChange_def)
next
  case (bonus g)
  with handleMischiefDraw_cases [of raw g] show ?case by auto
qed

text \<open>
  C10. In every state a game can reach in which the drawn cards hold no \<open>isolation\<close> and
  \<open>k \<ge> 1\<close> cards \<open>mischief\<close>, \<^verbatim>\<open>handleMischiefDraw\<close> runs to its end; the drawn cards
  become the old ones without their first \<open>mischief\<close> (so \<open>k - 1\<close> of the original
  occurrences stay), followed by \<open>kept\<close>, the two sampled cards cut after the first
  \<open>isolation\<close>; the number of \<open>mischief\<close> cards is \<open>k - 1\<close> plus those in \<open>kept\<close>.
\<close>

theorem bonus_draw_removes_first_mischief:
  assumes "reachable raw g" and "''isolation'' \<notin> set (drawnCards g)"
    and "count_list (drawnCards g) ''mischief'' = k" and "1 \<le> k"
    and "sliceAtIsolation (fst (drawLoop raw (deck g) 2 (rng g))) = kept"
  shows "fst (handleMischiefDraw raw g) = None \<and>
         drawnCards (snd (handleMischiefDraw raw g)) = remove1 ''mischief'' (drawnCards g) @ kept \<and>
         count_list (remove1 ''mischief'' (drawnCards g)) ''mischief'' = k - 1 \<and>
         count_list (drawnCards (snd (handleMischiefDraw raw g))) ''mischief''
           = (k - 1) + count_list kept ''mischief''"
proof -
  from assms(3,4) have m: "''mischief'' \<in> set (drawnCards g)"
    by (metis count_notin not_one_le_zero)
  then have "drawnCards g \<noteq> []" by auto
  with assms(1) have ne: "deck g \<noteq> []" by (rule reachable_deck_nonempty)
  from m assms(3) have "count_list (remove1 ''mischief'' (drawnCards g)) ''mischief'' = k - 1"
    by (simp add: count_list_remove1_same)
  then show ?thesis
    by (simp add: handleMischiefDraw_run [OF assms(2) ne] assms(5))
qed


theorem bonus_draw_samples_two_witness:
  "''isolation'' \<notin> set [''mischief'', ''day''] \<and> [''isolation'', ''champion''] \<noteq> [] \<and>
   fst (drawLoop (tape [1, 0]) [''isolation'', ''champion''] 2 0) = [''champion'', ''isolation''] \<and>
   handleMischiefDraw (tape [1, 0])
     \<lparr>deck = [''isolation'', ''champion''], deckSize = 2, drawnCards = [''mischief'', ''day''], rng = 0\<rparr>
   = (None, \<lparr>deck = [''isolation'', ''champion''], deckSize = 2,
              drawnCards = [''day'', ''champion'', ''isolation''], rng = 2\<rparr>)"
proof -
  let ?g = "\<lparr>deck = [''isolation'', ''champion''], deckSize = 2,
             drawnCards = [''mischief'', ''day''], rng = 0\<rparr>"
  have h1: "''isolation'' \<notin> set (drawnCards ?g)" and h2: "deck ?g \<noteq> []" by simp_all
  have h3: "fst (drawLoop (tape [1, 0]) (deck ?g) 2 (rng ?g)) = [''champion'', ''isolation'']"
    by code_simp
  have s: "sliceAtIsolation [''day'', ''champion'', ''isolation''] = [''day'', ''champion'', ''isolation'']"
    by code_simp
  from bonus_draw_samples_two [OF h1 h2 h3] h3 show ?thesis by (simp add: s)
qed

theorem bonus_draw_second_card_counterexample:
  "''isolation'' \<notin> set [''mischief''] \<and>
   fst (drawLoop (tape [0, 1]) [''isolation'', ''champion''] 2 0) = [''isolation'', ''champion''] \<and>
   handleMischiefDraw (tape [0, 1])
     \<lparr>deck = [''isolation'', ''champion''], deckSize = 2, drawnCards = [''mischief''], rng = 0\<rparr>
   = (None, \<lparr>deck = [''isolation'', ''champion''], deckSize = 2,
              drawnCards = [''isolation''], rng = 2\<rparr>) \<and>
   rng (snd (handleMischiefDraw (tape [0, 1])
     \<lparr>deck = [''isolation'', ''champion''], deckSize = 2, drawnCards = [''mischief''], rng = 0\<rparr>))
   \<noteq> 0 + 1"
proof -
  let ?g = "\<lparr>deck = [''isolation'', ''champion''], deckSize = 2,
             drawnCards = [''mischief''], rng = 0\<rparr>"
  have d: "fst (drawLoop (tape [0, 1]) [''isolation'', ''champion''] 2 0) = [''isolation'', ''champion'']"
    by code_simp
  have m: "handleMischiefDraw (tape [0, 1]) ?g = (None, ?g\<lparr>drawnCards := [''isolation''], rng := 2\<rparr>)"
    by code_simp
  show ?thesis unfolding d m by simp
qed

theorem bonus_draw_removes_first_mischief_witness:
  "reachable (tape (replicate 22 0 @ [1, 1, 1, 0]))
     (snd (handleDrawCards (tape (replicate 22 0 @ [1, 1, 1, 0])) 2
        (handleDeckSizeChange (tape (replicate 22 0 @ [1, 1, 1, 0])) Custom
           (Some [''mischief'', ''day'']) (newGame (tape (replicate 22 0 @ [1, 1, 1, 0])) 0)))) \<and>
   drawnCards (snd (handleDrawCards (tape (replicate 22 0 @ [1, 1, 1, 0])) 2
        (handleDeckSizeChange (tape (replicate 22 0 @ [1, 1, 1, 0])) Custom
           (Some [''mischief'', ''day'']) (newGame (tape (replicate 22 0 @ [1, 1, 1, 0])) 0))))
     = [''mischief'', ''mischief''] \<and>
   ''isolation'' \<notin> set [''mischief'', ''mischief''] \<and>
   count_list [''mischief'', ''mischief''] ''mischief'' = 2 \<and> (1::nat) \<le> 2 \<and>
   drawnCards (snd (handleMischiefDraw (tape (replicate 22 0 @ [1, 1, 1, 0]))
     (snd (handleDrawCards (tape (replicate 22 0 @ [1, 1, 1, 0])) 2
        (handleDeckSizeChange (tape (replicate 22 0 @ [1, 1, 1, 0])) Custom
           (Some [''mischief'', ''day'']) (newGame (tape (replicate 22 0 @ [1, 1, 1, 0])) 0))))))
     = [''mischief''] @ [''mischief'', ''day''] \<and>
   count_list ([''mischief''] @ [''mischief'', ''day'']) ''mischief'' = (2 - 1) + 1"
proof -
  let ?raw = "tape (replicate 22 0 @ [1, 1, 1, 0])"
  let ?g = "snd (handleDrawCards ?raw 2
              (handleDeckSizeChange ?raw Custom (Some [''mischief'', ''day'']) (newGame ?raw 0)))"
  have r: "reachable ?raw ?g" by (intro reachable.intros)
  have g: "?g = \<lparr>deck = [''day'', ''mischief''], deckSize = 2,
                 drawnCards = [''mischief'', ''mischief''], rng = 24\<rparr>"
    by code_simp
  have h2: "''isolation'' \<notin> set (drawnCards ?g)" unfolding g by simp
  have h3: "count_list (drawnCards ?g) ''mischief'' = 2" unfolding g by simp
  have h4: "(1::nat) \<le> 2" by simp
  have h5: "sliceAtIsolation (fst (drawLoop ?raw (deck ?g) 2 (rng ?g))) = [''mischief'', ''day'']"
    unfolding g by code_simp
  from bonus_draw_removes_first_mischief [OF r h2 h3 h4 h5] r show ?thesis
    unfolding g by simp
qed

section \<open>Deck configuration\<close>


lemma length_swap [simp]: "length (swap xs i j) = length xs"
  by (simp add: swap_def)








section \<open>The tally of the effect records\<close>

lemma getEffect_None_positive:
  "0 < n \<Longrightarrow> 0 < m \<Longrightarrow> getEffect c n = None \<Longrightarrow> getEffect c m = None"
  by (simp add: getEffect_def Let_def split: if_splits)

lemma truthy_getEffect: "truthy (getEffect c n) = (getEffect c n \<noteq> None)"
  by (simp add: getEffect_def Let_def)

lemma effectsLoop_total:
  "sum_list (map cardCount (regular (effectsLoop entries reg cur))) +
   sum_list (map cardCount (curses (effectsLoop entries reg cur))) =
   sum_list (map cardCount reg) + sum_list (map cardCount cur) +
   sum_list (map snd (filter (\<lambda>(k, n). getEffect k n \<noteq> None) entries))"
proof (induction entries arbitrary: reg cur)
  case Nil
  then show ?case by simp
next
  case (Cons p entries)
  obtain k n where p: "p = (k, n)" by (cases p)
  show ?case
  proof (cases "getEffect k n")
    case None
    with p Cons show ?thesis by (simp add: truthy_getEffect)
  next
    case (Some ef)
    then have "getEffect k n \<noteq> None" by simp
    then have t: "truthy (getEffect k n)" using truthy_getEffect [of k n] by blast
    from p Cons.IH Some t show ?thesis by (cases ef) (simp_all add: Let_def)
  qed
qed

lemma tallyNext_Cons_other: "k' \<noteq> k \<Longrightarrow> tallyNext ((k', v) # m) k = tallyNext m k"
  by (simp add: tallyNext_def)

lemma tallyNext_Cons_same: "tallyNext ((k, v) # m) k = v + 1"
  by (simp add: tallyNext_def)

lemma mapSet_tally_total:
  "sum_list (map snd (filter (\<lambda>(k, n). P k) (mapSet m k (tallyNext m k)))) =
   sum_list (map snd (filter (\<lambda>(k, n). P k) m)) + (if P k then 1 else 0)"
proof (induction m)
  case Nil
  then show ?case by (simp add: tallyNext_def)
next
  case (Cons p m)
  obtain k' v where p: "p = (k', v)" by (cases p)
  show ?case
  proof (cases "k' = k")
    case True
    with p show ?thesis by (simp add: tallyNext_Cons_same)
  next
    case False
    with p Cons show ?thesis by (simp add: tallyNext_Cons_other)
  qed
qed

lemma mapSet_tally_positive:
  "\<forall>(k, n) \<in> set m. 0 < n \<Longrightarrow> \<forall>(k', n) \<in> set (mapSet m k (tallyNext m k)). 0 < n"
proof (induction m)
  case Nil
  then show ?case by (simp add: tallyNext_def)
next
  case (Cons p m)
  obtain k' v where p: "p = (k', v)" by (cases p)
  show ?case
  proof (cases "k' = k")
    case True
    with p Cons.prems show ?thesis by (simp add: tallyNext_Cons_same)
  next
    case False
    with p Cons show ?thesis by (simp add: tallyNext_Cons_other)
  qed
qed

lemma tally_fold_total:
  "sum_list (map snd (filter (\<lambda>(k, n). P k)
      (fold (\<lambda>card counts. mapSet counts card (tallyNext counts card)) drawn m))) =
   sum_list (map snd (filter (\<lambda>(k, n). P k) m)) + length (filter P drawn)"
  by (induction drawn arbitrary: m) (simp_all add: mapSet_tally_total)

lemma tally_fold_positive:
  "\<forall>(k, n) \<in> set m. 0 < n \<Longrightarrow>
   \<forall>(k, n) \<in> set (fold (\<lambda>card counts. mapSet counts card (tallyNext counts card)) drawn m). 0 < n"
proof (induction drawn arbitrary: m)
  case Nil
  then show ?case by simp
next
  case (Cons c drawn)
  from Cons.prems have "\<forall>(k', n) \<in> set (mapSet m c (tallyNext m c)). 0 < n"
    by (rule mapSet_tally_positive)
  then show ?case using Cons.IH by simp
qed

lemma countCards_total: "sum_list (map snd (filter (\<lambda>(k, n). P k) (countCards drawn))) = length (filter P drawn)"
  by (simp add: countCards_def tally_fold_total)

lemma countCards_positive: "(k, n) \<in> set (countCards drawn) \<Longrightarrow> 0 < n"
  using tally_fold_positive [of "[]" drawn] by (auto simp: countCards_def)

lemma effect_records_total:
  "sum_list (map cardCount (regular (calculateEffects drawn))) +
   sum_list (map cardCount (curses (calculateEffects drawn))) =
   length (filter (\<lambda>c. getEffect c 1 \<noteq> None) drawn)"
proof (cases "drawn = []")
  case True
  then show ?thesis by (simp add: calculateEffects_def)
next
  case False
  have "filter (\<lambda>(k, n). getEffect k n \<noteq> None) (countCards drawn) =
        filter (\<lambda>(k, n). getEffect k 1 \<noteq> None) (countCards drawn)"
  proof (rule filter_cong [OF refl])
    fix p assume "p \<in> set (countCards drawn)"
    then have "0 < snd p" using countCards_positive [of "fst p" "snd p" drawn] by simp
    then have "(getEffect (fst p) (snd p) = None) = (getEffect (fst p) 1 = None)"
      using getEffect_None_positive [of "snd p" 1 "fst p"] getEffect_None_positive [of 1 "snd p" "fst p"]
      by auto
    then show "(case p of (k, n) \<Rightarrow> getEffect k n \<noteq> None) = (case p of (k, n) \<Rightarrow> getEffect k 1 \<noteq> None)"
      by (simp only: case_prod_unfold)
  qed
  with False show ?thesis
    by (simp add: calculateEffects_def effectsLoop_total countCards_total)
qed

text \<open>
  C7. For every list of drawn cards, empty or not, the \<^verbatim>\<open>count\<close> fields of the
  records in the \<open>regular\<close> and \<open>curses\<close> lists of \<^verbatim>\<open>calculateEffects\<close>, added up,
  plus the number of drawn cards for which \<^verbatim>\<open>getEffect\<close> has no rule (it returns
  \<^verbatim>\<open>null\<close> for the card and its tally, so no record is made), is the number of drawn
  cards.
\<close>

theorem tally_invariant:
  "sum_list (map cardCount (regular (calculateEffects drawn))) +
   sum_list (map cardCount (curses (calculateEffects drawn))) +
   length (filter (\<lambda>c. getEffect c (count_list drawn c) = None) drawn) = length drawn"
proof -
  have "filter (\<lambda>c. getEffect c (count_list drawn c) = None) drawn =
        filter (\<lambda>c. \<not> getEffect c 1 \<noteq> None) drawn"
  proof (rule filter_cong [OF refl])
    fix c assume "c \<in> set drawn"
    then have "0 < count_list drawn c" by (induction drawn) auto
    then show "(getEffect c (count_list drawn c) = None) = (\<not> getEffect c 1 \<noteq> None)"
      using getEffect_None_positive [of "count_list drawn c" 1 c]
        getEffect_None_positive [of 1 "count_list drawn c" c]
      by auto
  qed
  then show ?thesis
    using sum_length_filter_compl [of "\<lambda>c. getEffect c 1 \<noteq> None" drawn]
    by (simp only: effect_records_total)
qed

section \<open>Dice tokens in a text\<close>

lemma not_digit_d: "\<not> isDigit CHR ''d''" and not_digit_k: "\<not> isDigit CHR ''k''"
  by (simp_all add: isDigit_def)

lemma word_k: "isWordChar CHR ''k''"
  by (simp add: isWordChar_def)

lemma digit_is_word: "isDigit c \<Longrightarrow> isWordChar c"
  by (auto simp: isDigit_def isWordChar_def)

lemma digits_then:
  assumes "\<forall>c\<in>set ds. isDigit c" and "rest = [] \<or> \<not> isDigit (hd rest)"
  shows "takeWhile isDigit (ds @ rest) = ds" and "dropWhile isDigit (ds @ rest) = rest"
  using assms by (cases rest; simp add: takeWhile_append2 dropWhile_append2)+

lemma boundary_not_digit: "boundaryAfterWord post \<Longrightarrow> post = [] \<or> \<not> isDigit (hd post)"
  by (cases post) (auto simp: boundaryAfterWord_def dest: digit_is_word)

lemma boundary_not_kh1: "boundaryAfterWord post \<Longrightarrow> take 3 post \<noteq> ''kh1''"
  by (cases post) (auto simp: boundaryAfterWord_def word_k)

lemma matchDiceAt_token:
  assumes "q \<noteq> []" and "\<forall>c\<in>set q. isDigit c" and "s \<noteq> []" and "\<forall>c\<in>set s. isDigit c"
    and "suffix = [] \<or> suffix = ''kh1''" and "boundaryAfterWord post"
  shows "matchDiceAt (q @ ''d'' @ s @ suffix @ post) = Some (q @ ''d'' @ s @ suffix, post)"
proof -
  have a: "takeWhile isDigit (q @ ''d'' @ s @ suffix @ post) = q"
    "dropWhile isDigit (q @ ''d'' @ s @ suffix @ post) = CHR ''d'' # s @ suffix @ post"
    using digits_then [OF assms(2), of "''d'' @ s @ suffix @ post"] by (simp_all add: not_digit_d)
  have "suffix @ post = [] \<or> \<not> isDigit (hd (suffix @ post))"
    using assms(5) boundary_not_digit [OF assms(6)] by (auto simp: not_digit_k)
  from digits_then [OF assms(4) this]
  have b: "takeWhile isDigit (s @ suffix @ post) = s" "dropWhile isDigit (s @ suffix @ post) = suffix @ post"
    by simp_all
  from assms(5) show ?thesis
  proof
    assume "suffix = []"
    with a b assms(1,3,6) boundary_not_kh1 [OF assms(6)] show ?thesis
      by (simp add: matchDiceAt_def)
  next
    assume "suffix = ''kh1''"
    with a b assms(1,3,6) show ?thesis
      by (simp add: matchDiceAt_def)
  qed
qed

lemma includesStr_set: "includesStr xs sub \<Longrightarrow> set sub \<subseteq> set xs"
proof (induction xs)
  case Nil
  then show ?case by simp
next
  case (Cons c cs)
  then show ?case using set_take_subset [of "length sub" "c # cs"] by auto
qed

lemma includesStr_append: "includesStr (xs @ sub) sub"
  by (induction xs) (simp_all, cases sub, simp_all)

lemma parseDiceExpression_token:
  assumes "q \<noteq> []" and "\<forall>c\<in>set q. isDigit c" and "s \<noteq> []" and "\<forall>c\<in>set s. isDigit c"
    and "suffix = [] \<or> suffix = ''kh1''"
  shows "parseDiceExpression (q @ ''d'' @ s @ suffix) =
           (if parseInt q < 1 \<or> parseInt s < 1 then None
            else Some \<lparr>quantity = parseInt q, sides = parseInt s, keepHighest = (suffix = ''kh1'')\<rparr>)"
proof -
  have a: "takeWhile isDigit (q @ ''d'' @ s @ suffix) = q"
    "dropWhile isDigit (q @ ''d'' @ s @ suffix) = CHR ''d'' # s @ suffix"
    using digits_then [OF assms(2), of "''d'' @ s @ suffix"] by (simp_all add: not_digit_d)
  have "suffix = [] \<or> \<not> isDigit (hd suffix)"
    using assms(5) by (auto simp: not_digit_k)
  from digits_then [OF assms(4) this]
  have b: "takeWhile isDigit (s @ suffix) = s" "dropWhile isDigit (s @ suffix) = suffix"
    by simp_all
  have inc: "includesStr (q @ ''d'' @ s @ suffix) ''kh1'' = (suffix = ''kh1'')"
  proof (cases "suffix = ''kh1''")
    case True
    then show ?thesis using includesStr_append [of "q @ ''d'' @ s" "''kh1''"] by simp
  next
    case False
    with assms(5) have e: "suffix = []" by simp
    have "\<not> includesStr (q @ ''d'' @ s) ''kh1''"
    proof
      assume "includesStr (q @ ''d'' @ s) ''kh1''"
      then have "CHR ''k'' \<in> set (q @ ''d'' @ s)" using includesStr_set by fastforce
      with assms(2,4) show False by (auto simp: not_digit_k)
    qed
    with e False show ?thesis by simp
  qed
  show ?thesis
    unfolding parseDiceExpression_def Let_def a inc
    using b assms(1,3,5) by auto
qed

lemma matchDiceAt_no_digit: "\<not> isDigit c \<Longrightarrow> matchDiceAt (c # cs) = None"
  by (simp add: matchDiceAt_def)

lemma scanDice_after_boundary:
  "boundaryAfterWord post \<Longrightarrow> scanDice raw True post pos = rollDiceInText raw post pos"
proof (cases post)
  case Nil
  then show ?thesis by (simp add: rollDiceInText_def)
next
  case (Cons c cs)
  assume "boundaryAfterWord post"
  with Cons have "\<not> isDigit c" by (auto simp: boundaryAfterWord_def dest: digit_is_word)
  then have "matchDiceAt (c # cs) = None" by (rule matchDiceAt_no_digit)
  with Cons show ?thesis by (simp add: rollDiceInText_def)
qed

lemma scanDice_token:
  assumes "matchDiceAt (tok @ post) = Some (tok, post)" and "tok \<noteq> []"
  shows "scanDice raw False (tok @ post) pos =
           (toString (fst (rollDiceExpression raw tok pos))
              @ fst (scanDice raw True post (fst (snd (rollDiceExpression raw tok pos)))),
            fst (snd (scanDice raw True post (fst (snd (rollDiceExpression raw tok pos))))),
            snd (snd (rollDiceExpression raw tok pos))
              @ snd (snd (scanDice raw True post (fst (snd (rollDiceExpression raw tok pos))))))"
proof -
  from assms(2) obtain c cs where t: "tok @ post = c # cs" by (cases tok) auto
  with assms(1) have "matchDiceAt (c # cs) = Some (tok, post)" by simp
  then show ?thesis unfolding t by (simp add: split_beta)
qed

lemma word_d: "isWordChar CHR ''d''" and word_h: "isWordChar CHR ''h''"
  and word_1: "isWordChar CHR ''1''"
  by (simp_all add: isWordChar_def)

lemma matchDiceAt_Some:
  assumes "matchDiceAt s = Some (tok, r)"
  shows "s = tok @ r \<and> tok \<noteq> [] \<and> (\<forall>c\<in>set tok. isWordChar c)"
proof -
  let ?ds1 = "takeWhile isDigit s" and ?r1 = "dropWhile isDigit s"
  have s: "s = ?ds1 @ ?r1" by simp
  have w1: "\<forall>c\<in>set ?ds1. isWordChar c" by (auto dest: set_takeWhileD digit_is_word)
  from assms have ne: "?ds1 \<noteq> []" by (auto simp: matchDiceAt_def Let_def split: if_splits)
  from assms ne obtain r2 where r1: "?r1 = CHR ''d'' # r2"
    by (cases ?r1) (auto simp: matchDiceAt_def Let_def split: if_splits)
  let ?ds2 = "takeWhile isDigit r2" and ?r3 = "dropWhile isDigit r2"
  have r2: "r2 = ?ds2 @ ?r3" by simp
  have w2: "\<forall>c\<in>set ?ds2. isWordChar c" by (auto dest: set_takeWhileD digit_is_word)
  from assms ne r1 have
    "(take 3 ?r3 = ''kh1'' \<and> tok = ?ds1 @ ''d'' @ ?ds2 @ ''kh1'' \<and> r = drop 3 ?r3) \<or>
     (tok = ?ds1 @ ''d'' @ ?ds2 \<and> r = ?r3)"
    by (auto simp: matchDiceAt_def Let_def split: if_splits)
  then show ?thesis
  proof
    assume k: "take 3 ?r3 = ''kh1'' \<and> tok = ?ds1 @ ''d'' @ ?ds2 @ ''kh1'' \<and> r = drop 3 ?r3"
    then have "?r3 = ''kh1'' @ r" by (metis append_take_drop_id)
    then have "r2 = ?ds2 @ ''kh1'' @ r" using r2 by simp
    then have "s = ?ds1 @ CHR ''d'' # ?ds2 @ ''kh1'' @ r" using s r1 by simp
    with k ne w1 w2 show ?thesis by (auto simp: word_d word_k word_h word_1)
  next
    assume k: "tok = ?ds1 @ ''d'' @ ?ds2 \<and> r = ?r3"
    then have "s = ?ds1 @ CHR ''d'' # ?ds2 @ r" using s r1 r2 by simp
    with k ne w1 w2 show ?thesis by (auto simp: word_d)
  qed
qed

lemma dropWhile_digit_last:
  assumes "xs \<noteq> []" and "\<not> isWordChar (last xs)"
  shows "takeWhile isDigit (xs @ rest) = takeWhile isDigit xs"
    and "dropWhile isDigit (xs @ rest) = dropWhile isDigit xs @ rest"
    and "dropWhile isDigit xs \<noteq> []"
    and "last (dropWhile isDigit xs) = last xs"
proof -
  from assms have m: "last xs \<in> set xs" and nd: "\<not> isDigit (last xs)"
    by (auto dest: digit_is_word)
  from m nd show "takeWhile isDigit (xs @ rest) = takeWhile isDigit xs"
    by (rule takeWhile_append1)
  from m nd show "dropWhile isDigit (xs @ rest) = dropWhile isDigit xs @ rest"
    by (rule dropWhile_append1)
  from m nd show ne: "dropWhile isDigit xs \<noteq> []" by (auto simp: dropWhile_eq_Nil_conv)
  have "xs = takeWhile isDigit xs @ dropWhile isDigit xs" by simp
  with ne show "last (dropWhile isDigit xs) = last xs" by (metis last_appendR)
qed

lemma kh1_tail_append:
  assumes "r3 \<noteq> []" and "\<not> isWordChar (last r3)"
  shows "take 3 (r3 @ rest) = ''kh1'' \<longleftrightarrow> take 3 r3 = ''kh1''"
    and "take 3 r3 = ''kh1'' \<Longrightarrow> drop 3 (r3 @ rest) = drop 3 r3 @ rest \<and> drop 3 r3 \<noteq> []"
    and "boundaryAfterWord (r3 @ rest) = boundaryAfterWord r3"
proof -
  from assms(1) show "boundaryAfterWord (r3 @ rest) = boundaryAfterWord r3"
    by (cases r3) (simp_all add: boundaryAfterWord_def)
  consider (one) a where "r3 = [a]" | (two) a b where "r3 = [a, b]"
    | (three) a b c where "r3 = [a, b, c]" | (more) a b c d r where "r3 = a # b # c # d # r"
  proof (cases r3)
    case Nil
    with assms(1) show ?thesis by simp
  next
    case c1: (Cons a t1)
    show ?thesis
    proof (cases t1)
      case Nil
      with c1 one show ?thesis by simp
    next
      case c2: (Cons b t2)
      show ?thesis
      proof (cases t2)
        case Nil
        with c1 c2 two show ?thesis by simp
      next
        case c3: (Cons c t3)
        show ?thesis
        proof (cases t3)
          case Nil
          with c1 c2 c3 three show ?thesis by simp
        next
          case (Cons d t4)
          with c1 c2 c3 more show ?thesis by simp
        qed
      qed
    qed
  qed
  note shape = this
  from shape assms(2) show "take 3 (r3 @ rest) = ''kh1'' \<longleftrightarrow> take 3 r3 = ''kh1''"
    by cases (auto simp: word_k word_h word_1)
  assume "take 3 r3 = ''kh1''"
  with shape assms(2) show "drop 3 (r3 @ rest) = drop 3 r3 @ rest \<and> drop 3 r3 \<noteq> []"
    by cases (auto simp: word_k word_h word_1)
qed

lemma matchDiceAt_append:
  assumes "s \<noteq> []" and "\<not> isWordChar (last s)"
  shows "matchDiceAt (s @ rest) =
           (case matchDiceAt s of None \<Rightarrow> None | Some (tok, r) \<Rightarrow> Some (tok, r @ rest))"
proof -
  note a = dropWhile_digit_last [OF assms]
  show ?thesis
  proof (cases "dropWhile isDigit s")
    case Nil
    with a(3) show ?thesis by simp
  next
    case (Cons c r2)
    show ?thesis
    proof (cases "c = CHR ''d'' \<and> takeWhile isDigit s \<noteq> []")
      case False
      with Cons a(1,2) show ?thesis by (auto simp: matchDiceAt_def Let_def)
    next
      case True
      from True have cd: "c = CHR ''d''" by simp
      from Cons a(4) cd have l: "last (CHR ''d'' # r2) = last s" by simp
      have r2ne: "r2 \<noteq> []"
      proof
        assume "r2 = []"
        with l have "last s = CHR ''d''" by simp
        with assms(2) show False by (simp add: word_d)
      qed
      with l assms(2) have r2: "r2 \<noteq> []" "\<not> isWordChar (last r2)" by simp_all
      note b = dropWhile_digit_last [OF r2]
      have nw: "\<not> isWordChar (last (dropWhile isDigit r2))" using b(4) r2(2) by simp
      note k = kh1_tail_append [OF b(3) nw]
      show ?thesis
      proof (cases "take 3 (dropWhile isDigit r2) = ''kh1''")
        case kh: True
        from k(2) [OF kh]
        have d: "drop 3 (dropWhile isDigit r2 @ rest) = drop 3 (dropWhile isDigit r2) @ rest"
          and dn: "drop 3 (dropWhile isDigit r2) \<noteq> []" by simp_all
        from dn have bd: "boundaryAfterWord (drop 3 (dropWhile isDigit r2) @ rest) =
                          boundaryAfterWord (drop 3 (dropWhile isDigit r2))"
          by (cases "drop 3 (dropWhile isDigit r2)") (simp_all add: boundaryAfterWord_def)
        have t: "take 3 (dropWhile isDigit r2 @ rest) = ''kh1''" using k(1) kh by simp
        show ?thesis
          unfolding matchDiceAt_def Let_def a(1) a(2) Cons
          using True by (simp add: b(1) b(2) t d bd k(3) kh del: take_append drop_append)
      next
        case kh: False
        have t: "take 3 (dropWhile isDigit r2 @ rest) \<noteq> ''kh1''" using k(1) kh by simp
        show ?thesis
          unfolding matchDiceAt_def Let_def a(1) a(2) Cons
          using True by (simp add: b(1) b(2) t k(3) kh del: take_append drop_append)
      qed
    qed
  qed
qed

lemma scanDice_step_None:
  "(if b then None else matchDiceAt (c # cs)) = None \<Longrightarrow>
   scanDice raw b (c # cs) pos =
     (c # fst (scanDice raw (isWordChar c) cs pos), snd (scanDice raw (isWordChar c) cs pos))"
  by (simp add: split_beta)

lemma scanDice_step_Some:
  "\<not> b \<Longrightarrow> matchDiceAt (c # cs) = Some (tok, r) \<Longrightarrow>
   scanDice raw b (c # cs) pos =
     (toString (fst (rollDiceExpression raw tok pos))
        @ fst (scanDice raw True r (fst (snd (rollDiceExpression raw tok pos)))),
      fst (snd (scanDice raw True r (fst (snd (rollDiceExpression raw tok pos))))),
      snd (snd (rollDiceExpression raw tok pos))
        @ snd (snd (scanDice raw True r (fst (snd (rollDiceExpression raw tok pos))))))"
  by (simp add: split_beta)

lemma scanDice_append:
  "pre \<noteq> [] \<Longrightarrow> \<not> isWordChar (last pre) \<Longrightarrow>
   scanDice raw b (pre @ rest) pos =
     (fst (scanDice raw b pre pos)
        @ fst (scanDice raw False rest (fst (snd (scanDice raw b pre pos)))),
      fst (snd (scanDice raw False rest (fst (snd (scanDice raw b pre pos))))),
      snd (snd (scanDice raw b pre pos))
        @ snd (snd (scanDice raw False rest (fst (snd (scanDice raw b pre pos))))))"
proof (induction "length pre" arbitrary: pre b pos rule: less_induct)
  case less
  from less.prems(1) obtain c cs where pre: "pre = c # cs" by (cases pre) auto
  note app = matchDiceAt_append [OF less.prems, of rest]
  show ?case
  proof (cases "if b then None else matchDiceAt pre")
    case None
    then have n2: "(if b then None else matchDiceAt (pre @ rest)) = None"
      using app by (auto split: if_splits)
    from None pre have s1: "scanDice raw b pre pos =
        (c # fst (scanDice raw (isWordChar c) cs pos), snd (scanDice raw (isWordChar c) cs pos))"
      by (simp only: scanDice_step_None)
    from n2 pre have s2: "scanDice raw b (pre @ rest) pos =
        (c # fst (scanDice raw (isWordChar c) (cs @ rest) pos),
         snd (scanDice raw (isWordChar c) (cs @ rest) pos))"
      by (simp only: append_Cons scanDice_step_None)
    show ?thesis
    proof (cases "cs = []")
      case True
      with pre less.prems(2) have "isWordChar c = False" by simp
      with True show ?thesis unfolding s1 s2 by (simp del: scanDice.simps(2))
    next
      case False
      from False pre less.prems(2) have nw: "\<not> isWordChar (last cs)" by simp
      from pre have len: "length cs < length pre" by simp
      have ih: "scanDice raw (isWordChar c) (cs @ rest) pos =
        (fst (scanDice raw (isWordChar c) cs pos)
           @ fst (scanDice raw False rest (fst (snd (scanDice raw (isWordChar c) cs pos)))),
         fst (snd (scanDice raw False rest (fst (snd (scanDice raw (isWordChar c) cs pos))))),
         snd (snd (scanDice raw (isWordChar c) cs pos))
           @ snd (snd (scanDice raw False rest (fst (snd (scanDice raw (isWordChar c) cs pos))))))"
        by (rule less.hyps [OF len False nw])
      show ?thesis unfolding s1 s2 ih by simp
    qed
  next
    case (Some x)
    obtain tok r where x: "x = (tok, r)" by (cases x)
    from Some x have nb: "\<not> b" and m: "matchDiceAt pre = Some (tok, r)"
      by (auto split: if_splits)
    from m app have m2: "matchDiceAt (pre @ rest) = Some (tok, r @ rest)" by simp
    from matchDiceAt_Some [OF m] have sh: "pre = tok @ r" "tok \<noteq> []" "\<forall>c\<in>set tok. isWordChar c"
      by simp_all
    have rne: "r \<noteq> []"
    proof
      assume "r = []"
      with sh have "last pre \<in> set tok" by simp
      with sh(3) less.prems(2) show False by blast
    qed
    with sh(1) have lr: "last r = last pre" by simp
    from sh(1,2) have len: "length r < length pre" by (cases tok) simp_all
    from lr less.prems(2) have nw: "\<not> isWordChar (last r)" by simp
    let ?p = "fst (snd (rollDiceExpression raw tok pos))"
    have ih: "scanDice raw True (r @ rest) ?p =
        (fst (scanDice raw True r ?p)
           @ fst (scanDice raw False rest (fst (snd (scanDice raw True r ?p)))),
         fst (snd (scanDice raw False rest (fst (snd (scanDice raw True r ?p))))),
         snd (snd (scanDice raw True r ?p))
           @ snd (snd (scanDice raw False rest (fst (snd (scanDice raw True r ?p))))))"
      by (rule less.hyps [OF len rne nw])
    from m pre have m': "matchDiceAt (c # cs) = Some (tok, r)" by simp
    from m2 pre have m2': "matchDiceAt (c # cs @ rest) = Some (tok, r @ rest)" by simp
    note s1 = scanDice_step_Some [OF nb m', of raw pos]
    note s2 = scanDice_step_Some [OF nb m2', of raw pos]
    show ?thesis unfolding pre append_Cons s1 s2 ih by simp
  qed
qed

text \<open>
  C8, amended. Take any text \<open>pre @ token @ post\<close> in which \<open>pre\<close> is empty or ends
  outside \<^verbatim>\<open>\w\<close>, \<open>token\<close> is digits, \<open>d\<close>, digits and then nothing or \<open>kh1\<close>, and
  \<open>post\<close> is empty or starts outside \<^verbatim>\<open>\w\<close>: a token between word boundaries, at any
  place in the text. Then \<^verbatim>\<open>rollDiceInText\<close> processes \<open>pre\<close> as it does alone,
  always replaces the token, and processes \<open>post\<close> as it does alone, with the generator
  handed on from left to right. A token whose quantity or number of sides is below 1
  becomes \<open>0\<close>: no die is rolled and one message is written. Any other token becomes
  its rolled value, the sum of the rolls or, with \<open>kh1\<close>, the highest. (The source
  computes in double precision; the bound \<open>2 ^ 53\<close> keeps the model's exact arithmetic
  faithful.) The counterexample is the token \<open>0d6\<close>, which does not stay in the text.
\<close>

theorem dice_token_replaced:
  assumes "pre = [] \<or> \<not> isWordChar (last pre)"
    and "q \<noteq> []" and "\<forall>c\<in>set q. isDigit c" and "s \<noteq> []" and "\<forall>c\<in>set s. isDigit c"
    and "suffix = [] \<or> suffix = ''kh1''" and "boundaryAfterWord post"
    and "parseInt q * parseInt s < 2 ^ 53"
    and "rollDiceInText raw pre pos = (out0, pos0, errs0)"
  shows "rollDiceInText raw (pre @ q @ ''d'' @ s @ suffix @ post) pos =
     (if parseInt q < 1 \<or> parseInt s < 1
      then (out0 @ ''0'' @ fst (rollDiceInText raw post pos0),
            fst (snd (rollDiceInText raw post pos0)),
            errs0 @ [''Invalid dice expression: \"'' @ q @ ''d'' @ s @ suffix @ ''\"'']
              @ snd (snd (rollDiceInText raw post pos0)))
      else (let (v, pos') =
                  (if suffix = ''kh1'' then maxLoop raw (parseInt s) (parseInt q) 0 pos0
                   else sumLoop raw (parseInt s) (parseInt q) 0 pos0)
            in (out0 @ toString v @ fst (rollDiceInText raw post pos'),
                fst (snd (rollDiceInText raw post pos')),
                errs0 @ snd (snd (rollDiceInText raw post pos')))))"
proof -
  let ?tok = "q @ ''d'' @ s @ suffix"
  let ?roll = "rollDiceExpression raw ?tok pos0"
  have m: "matchDiceAt (?tok @ post) = Some (?tok, post)"
    using matchDiceAt_token [OF assms(2-7)] by simp
  have ne: "?tok \<noteq> []" using assms(2) by simp
  have tokres: "scanDice raw False (?tok @ post) pos0 =
     (toString (fst ?roll) @ fst (rollDiceInText raw post (fst (snd ?roll))),
      fst (snd (rollDiceInText raw post (fst (snd ?roll)))),
      snd (snd ?roll) @ snd (snd (rollDiceInText raw post (fst (snd ?roll)))))"
    by (simp only: scanDice_token [OF m ne] scanDice_after_boundary [OF assms(7)])
  have whole: "rollDiceInText raw (pre @ ?tok @ post) pos =
     (out0 @ toString (fst ?roll) @ fst (rollDiceInText raw post (fst (snd ?roll))),
      fst (snd (rollDiceInText raw post (fst (snd ?roll)))),
      errs0 @ snd (snd ?roll) @ snd (snd (rollDiceInText raw post (fst (snd ?roll)))))"
  proof (cases "pre = []")
    case True
    with assms(9) have "out0 = []" "pos0 = pos" "errs0 = []" by (simp_all add: rollDiceInText_def)
    with True tokres show ?thesis by (simp add: rollDiceInText_def del: scanDice.simps(2))
  next
    case False
    with assms(1) have nw: "\<not> isWordChar (last pre)" by simp
    from assms(9) have p: "scanDice raw False pre pos = (out0, pos0, errs0)"
      by (simp add: rollDiceInText_def)
    have "rollDiceInText raw (pre @ ?tok @ post) pos =
            (out0 @ fst (scanDice raw False (?tok @ post) pos0),
             fst (snd (scanDice raw False (?tok @ post) pos0)),
             errs0 @ snd (snd (scanDice raw False (?tok @ post) pos0)))"
      unfolding rollDiceInText_def scanDice_append [OF False nw] p by simp
    then show ?thesis unfolding tokres by simp
  qed
  have p: "parseDiceExpression ?tok =
           (if parseInt q < 1 \<or> parseInt s < 1 then None
            else Some \<lparr>quantity = parseInt q, sides = parseInt s, keepHighest = (suffix = ''kh1'')\<rparr>)"
    by (rule parseDiceExpression_token [OF assms(2-6)])
  have e: "?roll =
     (if parseInt q < 1 \<or> parseInt s < 1
      then (0, pos0, [''Invalid dice expression: \"'' @ ?tok @ ''\"''])
      else if suffix = ''kh1''
        then (fst (maxLoop raw (parseInt s) (parseInt q) 0 pos0),
              snd (maxLoop raw (parseInt s) (parseInt q) 0 pos0), [])
        else (fst (sumLoop raw (parseInt s) (parseInt q) 0 pos0),
              snd (sumLoop raw (parseInt s) (parseInt q) 0 pos0), []))"
    unfolding rollDiceExpression_def p by (auto simp: split_beta)
  show ?thesis
    using whole unfolding e by (auto simp: split_beta digitChar_def toString.simps [of 0])
qed

theorem dice_token_replaced_witness:
  "\<not> isWordChar (last ''DC 11: take '') \<and> list_all isDigit ''2'' \<and> list_all isDigit ''6'' \<and>
   boundaryAfterWord '' and 0d6'' \<and> parseInt ''2'' * parseInt ''6'' < 2 ^ 53 \<and>
   rollDiceInText (tape [2, 4]) ''DC 11: take '' 0 = (''DC 11: take '', 0, []) \<and>
   rollDiceInText (tape [2, 4]) ''DC 11: take 2d6 and 0d6'' 0 =
     (''DC 11: take 8 and 0'', 2, [''Invalid dice expression: \"0d6\"'']) \<and>
   \<not> isWordChar (last ''DC 11: take 2d6 and '') \<and> list_all isDigit ''0'' \<and> parseInt ''0'' < 1 \<and>
   rollDiceInText (tape [2, 4]) ''DC 11: take 2d6 and '' 0 = (''DC 11: take 8 and '', 2, []) \<and>
   rollDiceInText (tape [2, 4]) ''You take 2d6kh1 damage'' 0 = (''You take 5 damage'', 2, [])"
proof -
  let ?raw = "tape [2, 4]"
  have h1: "''DC 11: take '' = [] \<or> \<not> isWordChar (last ''DC 11: take '')"
    and h2: "''DC 11: take 2d6 and '' = [] \<or> \<not> isWordChar (last ''DC 11: take 2d6 and '')"
    and h3: "''You take '' = [] \<or> \<not> isWordChar (last ''You take '')"
    by (simp_all add: isWordChar_def)
  have n2: "''2'' \<noteq> []" and n6: "''6'' \<noteq> []" and n0: "''0'' \<noteq> []" by simp_all
  have d2: "\<forall>c\<in>set ''2''. isDigit c" and d6: "\<forall>c\<in>set ''6''. isDigit c"
    and d0: "\<forall>c\<in>set ''0''. isDigit c"
    by (simp_all add: isDigit_def)
  have s0: "[] = [] \<or> [] = ''kh1''" and s1: "''kh1'' = [] \<or> ''kh1'' = ''kh1''" by simp_all
  have b1: "boundaryAfterWord '' and 0d6''" and b2: "boundaryAfterWord []"
    and b3: "boundaryAfterWord '' damage''"
    by (simp_all add: boundaryAfterWord_def isWordChar_def)
  have p: "parseInt ''2'' * parseInt ''6'' < 2 ^ 53"
    and p0: "parseInt ''0'' * parseInt ''6'' < 2 ^ 53" and z: "parseInt ''0'' < 1"
    by (simp_all add: parseInt_def digitVal_def)
  have r1: "rollDiceInText ?raw ''DC 11: take '' 0 = (''DC 11: take '', 0, [])" by code_simp
  have r2: "rollDiceInText ?raw ''DC 11: take 2d6 and '' 0 = (''DC 11: take 8 and '', 2, [])"
    by code_simp
  have r3: "rollDiceInText ?raw ''You take '' 0 = (''You take '', 0, [])" by code_simp
  have a: "rollDiceInText ?raw (''DC 11: take '' @ ''2'' @ ''d'' @ ''6'' @ [] @ '' and 0d6'') 0 =
          (''DC 11: take 8 and 0'', 2, [''Invalid dice expression: \"0d6\"''])"
    unfolding dice_token_replaced [OF h1 n2 d2 n6 d6 s0 b1 p r1] by code_simp
  have b: "rollDiceInText ?raw (''DC 11: take 2d6 and '' @ ''0'' @ ''d'' @ ''6'' @ [] @ []) 0 =
          (''DC 11: take 8 and 0'', 2, [''Invalid dice expression: \"0d6\"''])"
    unfolding dice_token_replaced [OF h2 n0 d0 n6 d6 s0 b2 p0 r2] by code_simp
  have c: "rollDiceInText ?raw (''You take '' @ ''2'' @ ''d'' @ ''6'' @ ''kh1'' @ '' damage'') 0 =
          (''You take 5 damage'', 2, [])"
    unfolding dice_token_replaced [OF h3 n2 d2 n6 d6 s1 b3 p r3] by code_simp
  from a b c r1 r2 h1 h2 d2 d6 d0 b1 p z show ?thesis by (simp add: list_all_iff)
qed

theorem invalid_token_untouched_counterexample:
  "matchDiceAt ''0d6 damage'' = Some (''0d6'', '' damage'') \<and>
   parseDiceExpression ''0d6'' = None \<and>
   rollDiceInText (tape [2, 4]) ''You take 0d6 damage'' 0 =
     (''You take 0 damage'', 0, [''Invalid dice expression: \"0d6\"'']) \<and>
   fst (rollDiceInText (tape [2, 4]) ''You take 0d6 damage'' 0) \<noteq> ''You take 0d6 damage''"
proof -
  have a: "matchDiceAt ''0d6 damage'' = Some (''0d6'', '' damage'')" by code_simp
  have b: "parseDiceExpression ''0d6'' = None" by code_simp
  have c: "rollDiceInText (tape [2, 4]) ''You take 0d6 damage'' 0 =
     (''You take 0 damage'', 0, [''Invalid dice expression: \"0d6\"''])" by code_simp
  show ?thesis unfolding a b c by simp
qed

section \<open>Duration dice\<close>

lemma digitChar_isDigit: "d < 10 \<Longrightarrow> isDigit (digitChar d)"
proof -
  assume "d < 10"
  then have "d \<in> {0, 1, 2, 3, 4, 5, 6, 7, 8, 9}" by auto
  then show ?thesis by (auto simp: digitChar_def isDigit_def)
qed

lemma digitVal_digitChar: "d < 10 \<Longrightarrow> digitVal (digitChar d) = d"
proof -
  assume "d < 10"
  then have "d \<in> {0, 1, 2, 3, 4, 5, 6, 7, 8, 9}" by auto
  then show ?thesis by (auto simp: digitChar_def digitVal_def)
qed

lemma toString_digits: "\<forall>c\<in>set (toString n). isDigit c"
proof (induction n rule: toString.induct)
  case (1 n)
  show ?case
  proof (cases "n < 10")
    case True
    then show ?thesis by (subst toString.simps) (simp add: digitChar_isDigit)
  next
    case False
    with 1 show ?thesis by (subst toString.simps) (simp add: digitChar_isDigit)
  qed
qed

lemma toString_nonempty: "toString n \<noteq> []"
  by (subst toString.simps) simp

lemma parseInt_snoc: "parseInt (ds @ [c]) = parseInt ds * 10 + digitVal c"
  by (simp add: parseInt_def)

lemma parseInt_toString: "parseInt (toString n) = n"
proof (induction n rule: toString.induct)
  case (1 n)
  show ?case
  proof (cases "n < 10")
    case True
    then show ?thesis by (subst toString.simps) (simp add: parseInt_def digitVal_digitChar)
  next
    case False
    with 1 have "parseInt (toString (n div 10)) = n div 10" by simp
    with False show ?thesis
      by (subst toString.simps) (simp add: parseInt_snoc digitVal_digitChar)
  qed
qed

lemma maxLoop_Suc:
  "maxLoop raw sd (Suc n) mx pos = maxLoop raw sd n (max mx (fst (randomInt raw 1 sd pos))) (Suc pos)"
  by (simp add: randomInt_def)

lemma Max_insert_max:
  "finite S \<Longrightarrow> Max (insert (max a b) S) = Max (insert a (insert b S))" for a b :: nat
  by (cases "S = {}") (simp_all add: max.assoc)

lemma maxLoop_closed:
  "maxLoop raw sd n mx pos =
     (Max (insert mx ((\<lambda>p. fst (randomInt raw 1 sd p)) ` {pos..<pos + n})), pos + n)"
proof (induction n arbitrary: mx pos)
  case 0
  then show ?case by simp
next
  case (Suc n)
  let ?roll = "\<lambda>p. fst (randomInt raw 1 sd p)"
  have s: "{pos..<pos + Suc n} = insert pos {Suc pos..<Suc pos + n}" by auto
  have "maxLoop raw sd (Suc n) mx pos =
          (Max (insert (max mx (?roll pos)) (?roll ` {Suc pos..<Suc pos + n})), Suc pos + n)"
    by (simp only: maxLoop_Suc Suc.IH)
  also have "Max (insert (max mx (?roll pos)) (?roll ` {Suc pos..<Suc pos + n})) =
             Max (insert mx (insert (?roll pos) (?roll ` {Suc pos..<Suc pos + n})))"
    by (rule Max_insert_max) simp
  finally show ?case unfolding s by simp
qed

lemma diceNotation_parse:
  assumes "1 \<le> n"
  shows "parseDiceExpression (diceNotation n) =
           Some \<lparr>quantity = n, sides = 12, keepHighest = (n \<noteq> 1)\<rparr>"
proof -
  have d12: "\<forall>c\<in>set ''12''. isDigit c" by (simp add: isDigit_def)
  have p12: "parseInt ''12'' = 12" by (simp add: parseInt_def digitVal_def)
  have suf: "(if n = 1 then [] else ''kh1'') = [] \<or> (if n = 1 then [] else ''kh1'') = ''kh1''"
    by simp
  have "diceNotation n = toString n @ ''d'' @ ''12'' @ (if n = 1 then [] else ''kh1'')"
    by (simp add: diceNotation_def)
  then show ?thesis
    using parseDiceExpression_token [OF toString_nonempty toString_digits _ d12 suf, of n] assms
    by (simp add: parseInt_toString p12)
qed

lemma durations_entry:
  assumes "(damageType, n) \<in> set (calculateChaosDurations selections) \<or>
           (damageType, n) \<in> set (calculateOrderDurations selections)"
  shows "1 \<le> n \<and> n \<le> length selections"
proof -
  let ?m = "fold (\<lambda>damageType durations.
                    mapSet durations damageType (tallyNext durations damageType)) selections []"
  from assms have mem: "(damageType, n) \<in> set ?m"
    by (auto simp: calculateChaosDurations_def calculateOrderDurations_def)
  have "\<forall>(k, n) \<in> set ?m. 0 < n" by (rule tally_fold_positive) simp
  with mem have pos: "0 < n" by auto
  from mem have "n \<in> set (map snd ?m)" by force
  then have "n \<le> sum_list (map snd ?m)" by (simp add: member_le_sum_list)
  also have "sum_list (map snd ?m) = length selections"
    using tally_fold_total [of "\<lambda>k. True" selections "[]"] by simp
  finally show ?thesis using pos by simp
qed

text \<open>
  C9, amended. Every entry of a duration tally map (\<^verbatim>\<open>calculateChaosDurations\<close> or
  \<^verbatim>\<open>calculateOrderDurations\<close> of the selections) has a tally \<open>n \<ge> 1\<close>. Its item
  reads: the capitalised damage type, then \<open>1d12\<close> when \<open>n = 1\<close> and \<open>n\<close> followed by
  \<open>d12kh1\<close> otherwise, then \<open>days\<close>: the \<open>kh1\<close> suffix appears exactly when the tally
  is above 1. \<^verbatim>\<open>rollDiceExpression\<close> evaluates that dice text to one roll of a
  twelve-sided die when \<open>n = 1\<close> and to the highest of \<open>n\<close> such rolls otherwise, never
  to their sum. The counterexample is the tally 2 with the rolls 3 and 5: the text is
  \<open>2d12kh1\<close> and its value 5.
\<close>

theorem duration_dice_notation:
  assumes "(damageType, n) \<in> set (calculateChaosDurations selections) \<or>
           (damageType, n) \<in> set (calculateOrderDurations selections)"
    and "length selections < 2 ^ 53"
  shows "1 \<le> n \<and>
         durationItemText damageType n =
           capitalizeFirst damageType @ '': '' @
           (if n = 1 then ''1d12'' else toString n @ ''d12kh1'') @ '' days'' \<and>
         rollDiceExpression raw (if n = 1 then ''1d12'' else toString n @ ''d12kh1'') pos =
           ((if n = 1 then fst (randomInt raw 1 12 pos)
             else Max ((\<lambda>p. fst (randomInt raw 1 12 p)) ` {pos..<pos + n})),
            pos + n, [])"
proof -
  from durations_entry [OF assms(1)] have n1: "1 \<le> n" by simp
  show ?thesis
  proof (cases "n = 1")
    case True
    have dn: "diceNotation n = ''1d12''" unfolding True by code_simp
    have "rollDiceExpression raw (diceNotation n) pos = (fst (randomInt raw 1 12 pos), pos + n, [])"
      unfolding rollDiceExpression_def diceNotation_parse [OF n1]
      using True by (simp add: randomInt_def)
    with True dn n1 show ?thesis by (simp add: durationItemText_def)
  next
    case False
    with n1 have "{pos..<pos + n} \<noteq> {}" by simp
    then have m: "Max (insert 0 ((\<lambda>p. fst (randomInt raw 1 12 p)) ` {pos..<pos + n})) =
               Max ((\<lambda>p. fst (randomInt raw 1 12 p)) ` {pos..<pos + n})"
      by (simp add: max_def)
    from False have dn: "diceNotation n = toString n @ ''d12kh1''" by (simp add: diceNotation_def)
    have "rollDiceExpression raw (diceNotation n) pos =
            (Max ((\<lambda>p. fst (randomInt raw 1 12 p)) ` {pos..<pos + n}), pos + n, [])"
      unfolding rollDiceExpression_def diceNotation_parse [OF n1]
      using False n1 by (simp add: maxLoop_closed m)
    with False dn n1 show ?thesis by (simp add: durationItemText_def)
  qed
qed

theorem duration_dice_notation_witness:
  "calculateChaosDurations [''acid'', ''cold'', ''acid''] = [(''acid'', 2), (''cold'', 1)] \<and>
   length [''acid'', ''cold'', ''acid''] < (2::nat) ^ 53 \<and>
   durationItemText ''acid'' 2 = ''Acid: 2d12kh1 days'' \<and>
   rollDiceExpression (tape [2, 10]) ''2d12kh1'' 0 = (11, 2, []) \<and>
   durationItemText ''cold'' 1 = ''Cold: 1d12 days'' \<and>
   rollDiceExpression (tape [2, 10]) ''1d12'' 0 = (3, 1, [])"
proof -
  let ?sel = "[''acid'', ''cold'', ''acid'']"
  have c: "calculateChaosDurations ?sel = [(''acid'', 2), (''cold'', 1)]" by code_simp
  have h2: "(''acid'', 2) \<in> set (calculateChaosDurations ?sel) \<or>
            (''acid'', 2) \<in> set (calculateOrderDurations ?sel)"
    and h1: "(''cold'', 1) \<in> set (calculateChaosDurations ?sel) \<or>
             (''cold'', 1) \<in> set (calculateOrderDurations ?sel)"
    unfolding c by simp_all
  have l: "length ?sel < (2::nat) ^ 53" by simp
  have t: "toString 2 @ ''d12kh1'' = ''2d12kh1''" by code_simp
  have u: "capitalizeFirst ''acid'' = ''Acid''" "capitalizeFirst ''cold'' = ''Cold''" by code_simp+
  have m: "Max ((\<lambda>p. fst (randomInt (tape [2, 10]) 1 12 p)) ` {0..<0 + 2}) = 11"
  proof -
    have "{0..<0 + 2} = {0, 1::nat}" by auto
    then show ?thesis by (simp add: randomInt_def tape_def)
  qed
  have r: "fst (randomInt (tape [2, 10]) 1 12 0) = 3" by (simp add: randomInt_def tape_def)
  note th2 = duration_dice_notation [OF h2 l, of "tape [2, 10]" 0, unfolded m]
  note th1 = duration_dice_notation [OF h1 l, of "tape [2, 10]" 0, unfolded r]
  have a1: "durationItemText ''acid'' 2 = ''Acid: 2d12kh1 days''"
    using th2 [THEN conjunct2, THEN conjunct1] t u by simp
  have a2: "rollDiceExpression (tape [2, 10]) ''2d12kh1'' 0 = (11, 2, [])"
    using th2 [THEN conjunct2, THEN conjunct2] t by simp
  have b1: "durationItemText ''cold'' 1 = ''Cold: 1d12 days''"
    using th1 [THEN conjunct2, THEN conjunct1] u by simp
  have b2: "rollDiceExpression (tape [2, 10]) ''1d12'' 0 = (3, 1, [])"
    using th1 [THEN conjunct2, THEN conjunct2] by simp
  from c l a1 a2 b1 b2 show ?thesis by simp
qed

theorem duration_dice_sum_counterexample:
  "calculateChaosDurations [''acid'', ''cold'', ''acid''] = [(''acid'', 2), (''cold'', 1)] \<and>
   diceNotation 2 = ''2d12kh1'' \<and> diceNotation 1 = ''1d12'' \<and>
   fst (randomInt (tape [2, 4]) 1 12 0) = 3 \<and> fst (randomInt (tape [2, 4]) 1 12 1) = 5 \<and>
   rollDiceExpression (tape [2, 4]) (diceNotation 2) 0 = (5, 2, []) \<and>
   fst (rollDiceExpression (tape [2, 4]) (diceNotation 2) 0) \<noteq> 3 + 5 \<and>
   rollDiceInText (tape [2, 4]) (durationItemText ''acid'' 2) 0 = (''Acid: 5 days'', 2, [])"
proof -
  have a: "diceNotation 2 = ''2d12kh1''" and b: "diceNotation 1 = ''1d12''" by code_simp+
  have c: "rollDiceExpression (tape [2, 4]) ''2d12kh1'' 0 = (5, 2, [])" by code_simp
  have d: "rollDiceInText (tape [2, 4]) (durationItemText ''acid'' 2) 0 = (''Acid: 5 days'', 2, [])"
    by code_simp
  have e: "calculateChaosDurations [''acid'', ''cold'', ''acid''] = [(''acid'', 2), (''cold'', 1)]"
    by code_simp
  show ?thesis unfolding a b c d e by (simp add: randomInt_def tape_def)
qed

end
